theory Spec2Isabelle
  imports Main "HOL-Library.Word" "HOL-Library.AList"
begin

unbundle bit_operations_syntax

section \<open>Values, errors and the platform interface\<close>

text \<open>
  The sources are TypeScript running on Node. A thrown exception is a value of type
  \<open>error\<close> on the left of a sum; \<open>Error msg\<close> is \<^verbatim>\<open>new Error(msg)\<close> with the
  message of the source, the other constructors are the exceptions the runtime itself
  raises.
\<close>

datatype error = Error string | SyntaxError string | RangeError string | TypeError string

type_synonym byte = "8 word"

text \<open>
  A parsed JSON document. An object is the list of its own properties in the order
  \<^verbatim>\<open>Object.keys\<close> enumerates them; the number type is a parameter, since no function
  below computes with a number other than through the platform's float32 codec.
\<close>

datatype 'n json =
    JNull
  | JBool bool
  | JNumber 'n
  | JString string
  | JArray "'n json list"
  | JObject "(string \<times> 'n json) list"

text \<open>
  What the code takes from the runtime and its libraries: \<^verbatim>\<open>Number.isFinite\<close>, the
  IEEE-754 binary32 encoding behind \<^verbatim>\<open>DataView.setFloat32\<close> and \<^verbatim>\<open>getFloat32\<close>,
  \<^verbatim>\<open>JSON.parse\<close> and \<^verbatim>\<open>JSON.stringify\<close>, the UTF-8 codec of \<^verbatim>\<open>Buffer\<close>, and the
  AES-256-CBC cipher of \<^verbatim>\<open>crypto\<close> (key, initialisation vector, input).
\<close>

record 'n platform =
  isFinite :: "'n \<Rightarrow> bool"
  float32Bits :: "'n \<Rightarrow> 32 word"
  float32Value :: "32 word \<Rightarrow> 'n"
  jsonParse :: "string \<Rightarrow> error + 'n json"
  jsonStringify :: "'n json \<Rightarrow> string"
  utf8Encode :: "string \<Rightarrow> byte list"
  utf8Decode :: "byte list \<Rightarrow> string"
  aes256cbcEncrypt :: "byte list \<Rightarrow> byte list \<Rightarrow> byte list \<Rightarrow> byte list"
  aes256cbcDecrypt :: "byte list \<Rightarrow> byte list \<Rightarrow> byte list \<Rightarrow> error + byte list"

text \<open>Sequencing of computations that may throw.\<close>

definition bindE :: "error + 'a \<Rightarrow> ('a \<Rightarrow> error + 'b) \<Rightarrow> error + 'b" where
  "bindE m f = (case m of Inl e \<Rightarrow> Inl e | Inr x \<Rightarrow> f x)"

fun mapE :: "('a \<Rightarrow> error + 'b) \<Rightarrow> 'a list \<Rightarrow> error + 'b list" where
  "mapE f [] = Inr []"
| "mapE f (x # xs) = bindE (f x) (\<lambda>y. bindE (mapE f xs) (\<lambda>ys. Inr (y # ys)))"

fun foldE :: "('a \<Rightarrow> 'b \<Rightarrow> error + 'b) \<Rightarrow> 'a list \<Rightarrow> 'b \<Rightarrow> error + 'b" where
  "foldE f [] out = Inr out"
| "foldE f (x # xs) out = bindE (f x out) (foldE f xs)"

lemma bindE_simps [simp]:
  "bindE (Inl e) f = Inl e"
  "bindE (Inr x) f = f x"
  by (simp_all add: bindE_def)

lemma bindE_cong [fundef_cong]:
  "m = m' \<Longrightarrow> (\<And>x. m' = Inr x \<Longrightarrow> f x = f' x) \<Longrightarrow> bindE m f = bindE m' f'"
  by (cases m') (simp_all add: bindE_def)

lemma mapE_cong [fundef_cong]:
  "xs = ys \<Longrightarrow> (\<And>x. x \<in> set ys \<Longrightarrow> f x = g x) \<Longrightarrow> mapE f xs = mapE g ys"
  by (induction ys arbitrary: xs) (auto simp: bindE_def split: sum.splits)

lemma foldE_cong [fundef_cong]:
  "a = b \<Longrightarrow> xs = ys \<Longrightarrow> (\<And>x. x \<in> set ys \<Longrightarrow> f x = g x) \<Longrightarrow> foldE f xs a = foldE g ys b"
  by (induction ys arbitrary: xs a b) (auto simp: bindE_def split: sum.splits)

section \<open>Hexadecimal text and byte buffers\<close>

definition hexDigits :: string where
  "hexDigits = ''0123456789abcdef''"

text \<open>\<^verbatim>\<open>bytes[i].toString(16).padStart(2, "0")\<close>, and \<^verbatim>\<open>Buffer.toString("hex")\<close>.\<close>

definition byteToHex :: "byte \<Rightarrow> string" where
  "byteToHex b = [hexDigits ! (unat b div 16), hexDigits ! (unat b mod 16)]"

definition bufferToHex :: "byte list \<Rightarrow> string" where
  "bufferToHex bytes = concat (map byteToHex bytes)"

text \<open>
  \<^verbatim>\<open>String.prototype.toUpperCase\<close> on the ASCII range, which is all the code applies it
  to: hexadecimal text.
\<close>

definition toUpperChar :: "char \<Rightarrow> char" where
  "toUpperChar c =
     (let n = (of_char c :: nat) in if 97 \<le> n \<and> n \<le> 122 then char_of (n - 32) else c)"

definition toUpperCase :: "string \<Rightarrow> string" where
  "toUpperCase s = map toUpperChar s"

definition isHexChar :: "char \<Rightarrow> bool" where
  "isHexChar c = (c \<in> set ''0123456789abcdefABCDEF'')"

definition hexVal :: "char \<Rightarrow> nat" where
  "hexVal c =
     (let n = (of_char c :: nat) in
      if 48 \<le> n \<and> n \<le> 57 then n - 48
      else if 97 \<le> n \<and> n \<le> 102 then n - 87
      else if 65 \<le> n \<and> n \<le> 70 then n - 55
      else 0)"

text \<open>The regular expression \<^verbatim>\<open>/^[0-9a-fA-F]{n}$/\<close>.\<close>

definition hexRE :: "nat \<Rightarrow> string \<Rightarrow> bool" where
  "hexRE n s = (length s = n \<and> list_all isHexChar s)"

definition HEX8_RE :: "string \<Rightarrow> bool" where
  "HEX8_RE s = hexRE 8 s"

text \<open>
  \<^verbatim>\<open>Buffer.from(text, "hex")\<close>: one byte for every pair of hexadecimal digits, up to the
  first pair that is not one.
\<close>

fun bufferFromHex :: "string \<Rightarrow> byte list" where
  "bufferFromHex (a # b # rest) =
     (if isHexChar a \<and> isHexChar b
      then of_nat (16 * hexVal a + hexVal b) # bufferFromHex rest
      else [])"
| "bufferFromHex _ = []"

text \<open>\<^verbatim>\<open>Buffer.subarray(start, end)\<close>.\<close>

definition subarray :: "byte list \<Rightarrow> nat \<Rightarrow> nat \<Rightarrow> byte list" where
  "subarray buf start end' = drop start (take end' buf)"

text \<open>
  \<^verbatim>\<open>readUInt32LE\<close> and \<^verbatim>\<open>writeUInt32LE\<close> of Node's \<^verbatim>\<open>Buffer\<close>: both raise a
  \<^verbatim>\<open>RangeError\<close> when the four bytes do not lie inside the buffer, and the write also
  when the value is not an unsigned 32-bit integer.
\<close>

definition readUInt32LE :: "byte list \<Rightarrow> nat \<Rightarrow> error + nat" where
  "readUInt32LE buf offset =
     (if offset + 4 \<le> length buf
      then Inr (unat (buf ! offset) + unat (buf ! (offset + 1)) * 2 ^ 8
                + unat (buf ! (offset + 2)) * 2 ^ 16 + unat (buf ! (offset + 3)) * 2 ^ 24)
      else Inl (RangeError ''ERR_OUT_OF_RANGE''))"

definition writeUInt32LE :: "byte list \<Rightarrow> nat \<Rightarrow> nat \<Rightarrow> error + byte list" where
  "writeUInt32LE buf v offset =
     (if 2 ^ 32 \<le> v \<or> length buf < offset + 4
      then Inl (RangeError ''ERR_OUT_OF_RANGE'')
      else Inr (buf[offset := of_nat v,
                    offset + 1 := of_nat (v div 2 ^ 8),
                    offset + 2 := of_nat (v div 2 ^ 16),
                    offset + 3 := of_nat (v div 2 ^ 24)]))"

text \<open>
  \<^verbatim>\<open>DataView.setFloat32(0, x, true)\<close> on a fresh four-byte buffer and
  \<^verbatim>\<open>DataView.getFloat32(0, true)\<close> on four bytes: the binary32 encoding, least
  significant byte first.
\<close>

definition float32BytesLE :: "32 word \<Rightarrow> byte list" where
  "float32BytesLE w =
     [ucast w, ucast (drop_bit 8 w), ucast (drop_bit 16 w), ucast (drop_bit 24 w)]"

definition float32OfBytesLE :: "byte list \<Rightarrow> 32 word" where
  "float32OfBytesLE bs =
     (ucast (bs ! 0)) OR push_bit 8 (ucast (bs ! 1))
       OR push_bit 16 (ucast (bs ! 2)) OR push_bit 24 (ucast (bs ! 3))"

definition floatToHexLE :: "'n platform \<Rightarrow> 'n \<Rightarrow> string" where
  "floatToHexLE P x = toUpperCase (bufferToHex (float32BytesLE (float32Bits P x)))"

definition hexToFloatLE :: "'n platform \<Rightarrow> string \<Rightarrow> error + 'n" where
  "hexToFloatLE P hex8 =
     (if \<not> HEX8_RE hex8 then Inl (Error ''Invalid float hex.'')
      else Inr (float32Value P (float32OfBytesLE (bufferFromHex hex8))))"

section \<open>The migration transforms (src/nofs/binary.ts)\<close>

definition hasOwnProperty :: "(string \<times> 'a) list \<Rightarrow> string \<Rightarrow> bool" where
  "hasOwnProperty props key = (key \<in> set (map fst props))"

text \<open>
  The assignment \<^verbatim>\<open>out[key] = v\<close> on an object created by \<^verbatim>\<open>{}\<close>: it replaces the
  property in place or adds it after the others. For the key \<^verbatim>\<open>__proto__\<close> it reaches
  the setter of \<^verbatim>\<open>Object.prototype\<close> and creates no property of \<^verbatim>\<open>out\<close>.
\<close>

definition setProp :: "string \<Rightarrow> 'a \<Rightarrow> (string \<times> 'a) list \<Rightarrow> (string \<times> 'a) list" where
  "setProp key v out = (if key = ''__proto__'' then out else AList.update key v out)"

fun isArray :: "'n json \<Rightarrow> bool" where
  "isArray (JArray _) = True"
| "isArray _ = False"

fun arrayItems :: "'n json \<Rightarrow> 'n json list" where
  "arrayItems (JArray xs) = xs"
| "arrayItems _ = []"

fun isPlainObject :: "'n json \<Rightarrow> bool" where
  "isPlainObject (JObject _) = True"
| "isPlainObject _ = False"

lemma size_json_member: "x \<in> set xs \<Longrightarrow> size x < Suc (size_list size xs)"
  by (induction xs) auto

lemma size_json_prop:
  "(k, v) \<in> set props \<Longrightarrow> size v < Suc (size_list (size_prod (\<lambda>_. 0) size) props)"
  by (induction props) auto

lemma size_arrayItems: "e \<in> set (arrayItems v) \<Longrightarrow> size e < size v"
  by (cases v) (auto dest: size_json_member)

lemma size_json_prop_item:
  "(k, v) \<in> set props \<Longrightarrow> e \<in> set (arrayItems v) \<Longrightarrow>
     size e < size_list (size_prod (\<lambda>_. 0) size) props"
  using size_json_prop [of k v props] size_arrayItems [of e v] by simp

function (sequential)
  transformValueForEncrypt :: "'n platform \<Rightarrow> 'n json \<Rightarrow> 'n json" and
  transformStyleForEncrypt :: "'n platform \<Rightarrow> 'n json \<Rightarrow> 'n json"
where
  "transformValueForEncrypt P (JArray entries) =
     JArray (map (transformValueForEncrypt P) entries)"
| "transformValueForEncrypt P (JObject record) =
     (let hasPitch = hasOwnProperty record ''pitch_model'' in
      JObject (fold (\<lambda>(key, v) out.
        if key = ''sing_model'' then
          (if hasPitch then out
           else setProp ''pitch_model'' (transformValueForEncrypt P v) out)
        else if key = ''styles'' \<and> isArray v then
          setProp ''styles'' (JArray (map (transformStyleForEncrypt P) (arrayItems v))) out
        else setProp key (transformValueForEncrypt P v) out) record []))"
| "transformValueForEncrypt P v = v"
| "transformStyleForEncrypt P (JObject record) =
     JObject (fold (\<lambda>(key, extra) out.
        if key = ''extra'' then
          (case extra of
             JNumber x \<Rightarrow>
               if isFinite P x then setProp ''extra'' (JString (floatToHexLE P x)) out
               else setProp ''extra'' extra out
           | JString s \<Rightarrow>
               if HEX8_RE s then setProp ''extra'' (JString (toUpperCase s)) out
               else setProp ''extra'' extra out
           | _ \<Rightarrow> setProp ''extra'' extra out)
        else setProp key (transformValueForEncrypt P extra) out) record [])"
| "transformStyleForEncrypt P v = transformValueForEncrypt P v"
  by pat_completeness auto
termination
  by (relation "measure (case_sum (\<lambda>(P, v). 2 * size v) (\<lambda>(P, v). 2 * size v + 1))")
     (auto dest: size_json_member size_json_prop size_json_prop_item)

function (sequential)
  transformValueForDecrypt :: "'n platform \<Rightarrow> 'n json \<Rightarrow> error + 'n json" and
  transformStyleForDecrypt :: "'n platform \<Rightarrow> 'n json \<Rightarrow> error + 'n json"
where
  "transformValueForDecrypt P (JArray entries) =
     bindE (mapE (transformValueForDecrypt P) entries) (\<lambda>ys. Inr (JArray ys))"
| "transformValueForDecrypt P (JObject record) =
     (let hasSing = hasOwnProperty record ''sing_model'' in
      bindE (foldE (\<lambda>(key, v) out.
        if key = ''pitch_model'' then
          (if hasSing then Inr out
           else bindE (transformValueForDecrypt P v) (\<lambda>w. Inr (setProp ''sing_model'' w out)))
        else if key = ''styles'' \<and> isArray v then
          bindE (mapE (transformStyleForDecrypt P) (arrayItems v))
            (\<lambda>ws. Inr (setProp ''styles'' (JArray ws) out))
        else bindE (transformValueForDecrypt P v) (\<lambda>w. Inr (setProp key w out))) record [])
        (\<lambda>out. Inr (JObject out)))"
| "transformValueForDecrypt P v = Inr v"
| "transformStyleForDecrypt P (JObject record) =
     bindE (foldE (\<lambda>(key, extra) out.
        if key = ''extra'' then
          (case extra of
             JString s \<Rightarrow>
               if HEX8_RE s
               then bindE (hexToFloatLE P s) (\<lambda>x. Inr (setProp ''extra'' (JNumber x) out))
               else bindE (transformValueForDecrypt P extra)
                      (\<lambda>w. Inr (setProp ''extra'' w out))
           | _ \<Rightarrow> bindE (transformValueForDecrypt P extra) (\<lambda>w. Inr (setProp ''extra'' w out)))
        else bindE (transformValueForDecrypt P extra) (\<lambda>w. Inr (setProp key w out))) record [])
       (\<lambda>out. Inr (JObject out))"
| "transformStyleForDecrypt P v = transformValueForDecrypt P v"
  by pat_completeness auto
termination
  by (relation "measure (case_sum (\<lambda>(P, v). 2 * size v) (\<lambda>(P, v). 2 * size v + 1))")
     (auto dest: size_json_member size_json_prop size_json_prop_item)

section \<open>The NOFS container (src/nofs/binary.ts)\<close>

definition HEADER_TEMPLATE_HEX :: string where
  "HEADER_TEMPLATE_HEX = ''80F500000A0000000000000000000000440000000010E633BABA5400000000000000024C86BE7600000000000000245C5C699500000000000000A03A9696B000000000000000000000000000000000004400000022000000010012002E666561747572655F66305F7669626D6F6400000000220000001F00000001000F002E666561747572655F66305F6F726E000000001F0000001B00000001000B0066306D6F64656C2D646473000000001B00000028100000010004007E7F7F7F14100000''"

definition HEADER_SIZE :: nat where
  "HEADER_SIZE = 192"

definition SVDB_MAGIC :: "byte list" where
  "SVDB_MAGIC = [0x53, 0x56, 0x44, 0x42]"

definition KEY :: "byte list" where
  "KEY = bufferFromHex ''9ace85bf9f6e4cde2f5ad2fff38bebcf8e85368749f294e9ef99c1d7542812fe''"

definition buildHeader :: "nat \<Rightarrow> error + byte list" where
  "buildHeader svdbLength =
     (let template = bufferFromHex HEADER_TEMPLATE_HEX in
      if length template \<noteq> HEADER_SIZE then Inl (Error ''Invalid NOFS header template.'')
      else bindE (writeUInt32LE template (svdbLength + 20) 0xb0)
             (\<lambda>header. writeUInt32LE header svdbLength 0xbc))"

definition transformJsonForEncrypt :: "'n platform \<Rightarrow> string \<Rightarrow> error + string" where
  "transformJsonForEncrypt P jsonText =
     bindE (jsonParse P jsonText)
       (\<lambda>parsed. Inr (jsonStringify P (transformValueForEncrypt P parsed)))"

definition transformJsonForDecrypt :: "'n platform \<Rightarrow> string \<Rightarrow> error + string" where
  "transformJsonForDecrypt P jsonText =
     bindE (jsonParse P jsonText)
       (\<lambda>parsed. bindE (transformValueForDecrypt P parsed)
          (\<lambda>transformed. Inr (jsonStringify P transformed)))"

text \<open>
  The argument \<open>iv\<close> is the result of \<^verbatim>\<open>crypto.randomBytes(16)\<close>, the only
  non-deterministic step of the function.
\<close>

definition encryptJsonToNofs :: "'n platform \<Rightarrow> byte list \<Rightarrow> string \<Rightarrow> error + byte list" where
  "encryptJsonToNofs P iv jsonTextUtf8 =
     bindE (transformJsonForEncrypt P jsonTextUtf8) (\<lambda>transformed.
       let plaintext = utf8Encode P transformed;
           ciphertext = aes256cbcEncrypt P KEY iv plaintext;
           svdbLength = 20 + length ciphertext
       in bindE (buildHeader svdbLength) (\<lambda>header.
          bindE (writeUInt32LE (replicate 4 0) (svdbLength + 20) 0) (\<lambda>trailer.
            Inr (header @ SVDB_MAGIC @ iv @ ciphertext @ trailer))))"

definition decryptNofsToJson :: "'n platform \<Rightarrow> byte list \<Rightarrow> error + string" where
  "decryptNofsToJson P nofsBytes =
     (if length nofsBytes < HEADER_SIZE + 4 + 16 + 4 then Inl (Error ''Invalid NOFS file size.'')
      else
        let magic = subarray nofsBytes HEADER_SIZE (HEADER_SIZE + 4) in
        if magic \<noteq> SVDB_MAGIC then Inl (Error ''Missing SVDB header.'')
        else
          let ivStart = HEADER_SIZE + 4;
              iv = subarray nofsBytes ivStart (ivStart + 16);
              ciphertext = subarray nofsBytes (ivStart + 16) (length nofsBytes - 4);
              svdbLength = 20 + length ciphertext
          in bindE (readUInt32LE nofsBytes 0xbc) (\<lambda>headerSvdb.
             bindE (readUInt32LE nofsBytes 0xb0) (\<lambda>headerTotal.
             bindE (readUInt32LE nofsBytes (length nofsBytes - 4)) (\<lambda>trailer.
               if headerSvdb \<noteq> svdbLength \<or> headerTotal \<noteq> svdbLength + 20
                  \<or> trailer \<noteq> svdbLength + 20
               then Inl (Error ''NOFS length fields mismatch.'')
               else bindE (aes256cbcDecrypt P KEY iv ciphertext) (\<lambda>plaintext.
                      transformJsonForDecrypt P (utf8Decode P plaintext))))))"

section \<open>A stand-in for the platform\<close>

text \<open>
  A small instance of the platform interface, on which the functions can be run: numbers
  are binary32 bit patterns, the parser knows five literals, and the cipher only pads to
  the block size. The general theorems do not depend on it; their closed instances do.
\<close>

definition testIsFinite :: "32 word \<Rightarrow> bool" where
  "testIsFinite w = (take_bit 8 (drop_bit 23 w) \<noteq> 255)"

definition testParse :: "string \<Rightarrow> error + 32 word json" where
  "testParse s =
     (if s = ''null'' then Inr JNull
      else if s = ''true'' then Inr (JBool True)
      else if s = ''false'' then Inr (JBool False)
      else if s = ''[]'' then Inr (JArray [])
      else if s = ''{}'' then Inr (JObject [])
      else Inl (SyntaxError ''Unexpected token''))"

definition testStringify :: "32 word json \<Rightarrow> string" where
  "testStringify j =
     (case j of
        JNull \<Rightarrow> ''null''
      | JBool b \<Rightarrow> (if b then ''true'' else ''false'')
      | JArray [] \<Rightarrow> ''[]''
      | JObject [] \<Rightarrow> ''{}''
      | _ \<Rightarrow> ''...'')"

definition testPad :: "byte list \<Rightarrow> byte list \<Rightarrow> byte list \<Rightarrow> byte list" where
  "testPad key iv plaintext =
     (let n = 16 - length plaintext mod 16 in plaintext @ replicate n (of_nat n))"

definition testUnpad :: "byte list \<Rightarrow> byte list \<Rightarrow> byte list \<Rightarrow> error + byte list" where
  "testUnpad key iv ciphertext =
     (if ciphertext = [] \<or> length ciphertext mod 16 \<noteq> 0
      then Inl (Error ''wrong final block length'')
      else let n = unat (last ciphertext) in
        if n = 0 \<or> 16 < n then Inl (Error ''bad decrypt'')
        else Inr (take (length ciphertext - n) ciphertext))"

definition testPlatform :: "32 word platform" where
  "testPlatform =
     \<lparr> isFinite = testIsFinite,
       float32Bits = (\<lambda>w. w),
       float32Value = (\<lambda>w. w),
       jsonParse = testParse,
       jsonStringify = testStringify,
       utf8Encode = map (\<lambda>c. of_nat (of_char c)),
       utf8Decode = map (\<lambda>b. char_of (unat b)),
       aes256cbcEncrypt = testPad,
       aes256cbcDecrypt = testUnpad \<rparr>"

section \<open>Buffers and the header\<close>

lemma unat_byte_of_nat: "unat (of_nat n :: byte) = n mod 256"
  by (simp add: unat_of_nat)

lemma le_bytes_value:
  assumes "v < 4294967296"
  shows "v mod 256 + v div 256 mod 256 * 256 + v div 65536 mod 256 * 65536
     + v div 16777216 * 16777216 = (v::nat)"
proof -
  define q1 q2 q3 where "q1 = v div 256" and "q2 = q1 div 256" and "q3 = q2 div 256"
  have d: "v div 256 = q1" "v div 65536 = q2" "v div 16777216 = q3"
    by (simp_all add: q1_def q2_def q3_def div_mult2_eq[symmetric])
  have e: "v = v mod 256 + 256 * q1" "q1 = q1 mod 256 + 256 * q2" "q2 = q2 mod 256 + 256 * q3"
    by (simp_all add: q1_def q2_def q3_def)
  have "v mod 256 + q1 mod 256 * 256 + q2 mod 256 * 65536 + q3 * 16777216 = v"
    using e by linarith
  then show ?thesis by (simp only: d)
qed

lemma readUInt32LE_append1:
  "offset + 4 \<le> length xs \<Longrightarrow> readUInt32LE (xs @ ys) offset = readUInt32LE xs offset"
  by (simp add: readUInt32LE_def nth_append)

lemma readUInt32LE_append2:
  "readUInt32LE (xs @ ys) (length xs + offset) = readUInt32LE ys offset"
  by (simp add: readUInt32LE_def nth_append add.assoc)

lemma writeUInt32LE_length:
  "writeUInt32LE buf v offset = Inr buf' \<Longrightarrow> length buf' = length buf"
  by (auto simp: writeUInt32LE_def split: if_splits)

lemma readUInt32LE_writeUInt32LE_same:
  "writeUInt32LE buf v offset = Inr buf' \<Longrightarrow> readUInt32LE buf' offset = Inr v"
  by (auto simp: writeUInt32LE_def readUInt32LE_def unat_byte_of_nat le_bytes_value
           simp del: One_nat_def split: if_splits)

lemma readUInt32LE_writeUInt32LE_other:
  "writeUInt32LE buf v offset = Inr buf' \<Longrightarrow> offset' + 4 \<le> offset \<or> offset + 4 \<le> offset' \<Longrightarrow>
     readUInt32LE buf' offset' = readUInt32LE buf offset'"
  by (auto simp: writeUInt32LE_def readUInt32LE_def split: if_splits)

lemma writeUInt32LE_ok:
  "v < 2 ^ 32 \<Longrightarrow> offset + 4 \<le> length buf \<Longrightarrow> \<exists>buf'. writeUInt32LE buf v offset = Inr buf'"
  by (simp add: writeUInt32LE_def)


lemma length_template: "length (bufferFromHex HEADER_TEMPLATE_HEX) = 192"
  by code_simp

lemma buildHeader_Inr:
  assumes "buildHeader n = Inr header"
  shows "length header = 192 \<and> readUInt32LE header 0xb0 = Inr (n + 20)
           \<and> readUInt32LE header 0xbc = Inr n"
proof -
  from assms obtain h1 where
    w1: "writeUInt32LE (bufferFromHex HEADER_TEMPLATE_HEX) (n + 20) 0xb0 = Inr h1" and
    w2: "writeUInt32LE h1 n 0xbc = Inr header"
    by (auto simp: buildHeader_def Let_def bindE_def split: if_splits sum.splits)
  have l1: "length h1 = 192"
    using writeUInt32LE_length [OF w1] by (simp add: length_template)
  have l2: "length header = 192"
    using writeUInt32LE_length [OF w2] l1 by simp
  have "readUInt32LE header 0xb0 = readUInt32LE h1 0xb0"
    by (rule readUInt32LE_writeUInt32LE_other [OF w2]) simp
  also have "\<dots> = Inr (n + 20)"
    by (rule readUInt32LE_writeUInt32LE_same [OF w1])
  finally have "readUInt32LE header 0xb0 = Inr (n + 20)" .
  moreover have "readUInt32LE header 0xbc = Inr n"
    by (rule readUInt32LE_writeUInt32LE_same [OF w2])
  ultimately show ?thesis using l2 by simp
qed

lemma buildHeader_ok:
  assumes "n + 20 < 2 ^ 32"
  shows "\<exists>header. buildHeader n = Inr header"
proof -
  obtain h1 where w1: "writeUInt32LE (bufferFromHex HEADER_TEMPLATE_HEX) (n + 20) 0xb0 = Inr h1"
    using writeUInt32LE_ok [of "n + 20" "0xb0" "bufferFromHex HEADER_TEMPLATE_HEX"] assms
    by (auto simp: length_template)
  have "length h1 = 192"
    using writeUInt32LE_length [OF w1] by (simp add: length_template)
  then obtain h2 where "writeUInt32LE h1 n 0xbc = Inr h2"
    using writeUInt32LE_ok [of n "0xbc" h1] assms by auto
  with w1 show ?thesis
    by (simp add: buildHeader_def Let_def length_template HEADER_SIZE_def)
qed

lemma encryptJsonToNofs_Inr:
  assumes "encryptJsonToNofs P iv jsonText = Inr buf"
  obtains transformed header trailer where
    "transformJsonForEncrypt P jsonText = Inr transformed"
    "buildHeader (20 + length (aes256cbcEncrypt P KEY iv (utf8Encode P transformed))) = Inr header"
    "writeUInt32LE (replicate 4 0)
       (20 + length (aes256cbcEncrypt P KEY iv (utf8Encode P transformed)) + 20) 0 = Inr trailer"
    "buf = header @ SVDB_MAGIC @ iv @ aes256cbcEncrypt P KEY iv (utf8Encode P transformed) @ trailer"
  using assms
  by (auto simp: encryptJsonToNofs_def Let_def bindE_def split: sum.splits)

text \<open>
  Claim C7. Whenever \<^verbatim>\<open>encryptJsonToNofs\<close> produces a buffer, the little-endian
  32-bit field at offset 0xBC is 20 plus the ciphertext length, the field at 0xB0 and the
  final four bytes are that value plus 20, and the bytes at offset 192 are "SVDB"; the
  ciphertext length is the buffer's length minus the 216 bytes around it. A buffer is
  produced for every text the JSON parser accepts, as long as the two length fields fit
  in 32 bits.
\<close>

theorem encryptJsonToNofs_length_fields:
  assumes iv: "length iv = 16"
  shows "(\<forall>buf. encryptJsonToNofs P iv jsonText = Inr buf \<longrightarrow>
            (\<exists>transformed. transformJsonForEncrypt P jsonText = Inr transformed \<and>
               length buf = 216 + length (aes256cbcEncrypt P KEY iv (utf8Encode P transformed))) \<and>
            readUInt32LE buf 0xBC = Inr (20 + (length buf - 216)) \<and>
            readUInt32LE buf 0xB0 = Inr (20 + (length buf - 216) + 20) \<and>
            readUInt32LE buf (length buf - 4) = Inr (20 + (length buf - 216) + 20) \<and>
            subarray buf 192 196 = SVDB_MAGIC)
       \<and> (\<forall>parsed. jsonParse P jsonText = Inr parsed \<longrightarrow>
            length (aes256cbcEncrypt P KEY iv
              (utf8Encode P (jsonStringify P (transformValueForEncrypt P parsed)))) + 40 < 2 ^ 32 \<longrightarrow>
            (\<exists>buf. encryptJsonToNofs P iv jsonText = Inr buf))"
proof (intro conjI allI impI)
  fix buf
  assume enc: "encryptJsonToNofs P iv jsonText = Inr buf"
  then obtain transformed header trailer where
    t: "transformJsonForEncrypt P jsonText = Inr transformed" and
    h: "buildHeader (20 + length (aes256cbcEncrypt P KEY iv (utf8Encode P transformed))) = Inr header" and
    tr: "writeUInt32LE (replicate 4 0)
       (20 + length (aes256cbcEncrypt P KEY iv (utf8Encode P transformed)) + 20) 0 = Inr trailer" and
    buf: "buf = header @ SVDB_MAGIC @ iv @ aes256cbcEncrypt P KEY iv (utf8Encode P transformed) @ trailer"
    by (rule encryptJsonToNofs_Inr)
  define ct where "ct = aes256cbcEncrypt P KEY iv (utf8Encode P transformed)"
  note hd = buildHeader_Inr [OF h, folded ct_def]
  have ltr: "length trailer = 4"
    using writeUInt32LE_length [OF tr] by simp
  have len: "length buf = 216 + length ct"
    using hd ltr iv by (simp add: buf ct_def SVDB_MAGIC_def)
  show "\<exists>transformed. transformJsonForEncrypt P jsonText = Inr transformed \<and>
               length buf = 216 + length (aes256cbcEncrypt P KEY iv (utf8Encode P transformed))"
    using t len by (auto simp: ct_def)
  have "readUInt32LE buf 0xBC = readUInt32LE header 0xBC"
    unfolding buf by (rule readUInt32LE_append1) (simp add: hd)
  then show "readUInt32LE buf 0xBC = Inr (20 + (length buf - 216))"
    using hd len by simp
  have "readUInt32LE buf 0xB0 = readUInt32LE header 0xB0"
    unfolding buf by (rule readUInt32LE_append1) (simp add: hd)
  then show "readUInt32LE buf 0xB0 = Inr (20 + (length buf - 216) + 20)"
    using hd len by simp
  have "buf = (header @ SVDB_MAGIC @ iv @ ct) @ trailer"
    by (simp add: buf ct_def)
  moreover have "length buf - 4 = length (header @ SVDB_MAGIC @ iv @ ct) + 0"
    using hd iv len by (simp add: SVDB_MAGIC_def)
  ultimately have "readUInt32LE buf (length buf - 4) = readUInt32LE trailer 0"
    by (metis readUInt32LE_append2)
  also have "\<dots> = Inr (20 + length ct + 20)"
    using readUInt32LE_writeUInt32LE_same [OF tr] by (simp add: ct_def)
  finally show "readUInt32LE buf (length buf - 4) = Inr (20 + (length buf - 216) + 20)"
    using len by simp
  show "subarray buf 192 196 = SVDB_MAGIC"
    using hd by (simp add: buf subarray_def SVDB_MAGIC_def)
next
  fix parsed
  assume p: "jsonParse P jsonText = Inr parsed"
    and sz: "length (aes256cbcEncrypt P KEY iv
              (utf8Encode P (jsonStringify P (transformValueForEncrypt P parsed)))) + 40 < 2 ^ 32"
  define ct where "ct = aes256cbcEncrypt P KEY iv
              (utf8Encode P (jsonStringify P (transformValueForEncrypt P parsed)))"
  have t: "transformJsonForEncrypt P jsonText
             = Inr (jsonStringify P (transformValueForEncrypt P parsed))"
    by (simp add: transformJsonForEncrypt_def p)
  obtain header where h: "buildHeader (20 + length ct) = Inr header"
    using buildHeader_ok [of "20 + length ct"] sz by (auto simp: ct_def)
  obtain trailer where tr: "writeUInt32LE (replicate 4 0) (20 + length ct + 20) 0 = Inr trailer"
    using writeUInt32LE_ok [of "20 + length ct + 20" 0 "replicate 4 0"] sz by (auto simp: ct_def)
  show "\<exists>buf. encryptJsonToNofs P iv jsonText = Inr buf"
    using h tr by (simp add: encryptJsonToNofs_def t Let_def ct_def)
qed



theorem encryptJsonToNofs_length_fields_witness:
  "length (replicate 16 (0::byte)) = 16 \<and>
   (\<exists>buf. encryptJsonToNofs testPlatform (replicate 16 0) ''null'' = Inr buf \<and>
      length buf = 232 \<and>
      readUInt32LE buf 0xBC = Inr 36 \<and>
      readUInt32LE buf 0xB0 = Inr 56 \<and>
      readUInt32LE buf 228 = Inr 56 \<and>
      subarray buf 192 196 = SVDB_MAGIC)"
proof -
  have iv: "length (replicate 16 (0::byte)) = 16" by simp
  have p: "jsonParse testPlatform ''null'' = Inr JNull"
    by (simp add: testPlatform_def testParse_def)
  have t: "transformJsonForEncrypt testPlatform ''null'' = Inr ''null''"
    by (simp add: transformJsonForEncrypt_def p) (simp add: testPlatform_def testStringify_def)
  have l: "length (aes256cbcEncrypt testPlatform KEY (replicate 16 0)
             (utf8Encode testPlatform ''null'')) = 16"
    by (simp add: testPlatform_def testPad_def)
  note th = encryptJsonToNofs_length_fields [OF iv, of testPlatform "''null''"]
  from th p l obtain buf where
    b: "encryptJsonToNofs testPlatform (replicate 16 0) ''null'' = Inr buf"
    by (auto simp: testPlatform_def testStringify_def testPad_def)
  from th b t l have "length buf = 232"
    "readUInt32LE buf 0xBC = Inr (20 + (length buf - 216))"
    "readUInt32LE buf 0xB0 = Inr (20 + (length buf - 216) + 20)"
    "readUInt32LE buf (length buf - 4) = Inr (20 + (length buf - 216) + 20)"
    "subarray buf 192 196 = SVDB_MAGIC"
    by auto
  with b iv show ?thesis by auto
qed

section \<open>The decrypting transform never fails\<close>

lemma mapE_total:
  "(\<And>x. x \<in> set xs \<Longrightarrow> \<exists>y. f x = Inr y) \<Longrightarrow> \<exists>ys. mapE f xs = Inr ys"
proof (induction xs)
  case Nil
  show ?case by simp
next
  case (Cons x xs)
  from Cons.prems obtain y where "f x = Inr y" by auto
  moreover from Cons obtain ys where "mapE f xs = Inr ys" by auto
  ultimately show ?case by simp
qed

lemma foldE_total:
  "(\<And>x out. x \<in> set xs \<Longrightarrow> \<exists>out'. f x out = Inr out') \<Longrightarrow> \<exists>r. foldE f xs out = Inr r"
proof (induction xs arbitrary: out)
  case Nil
  show ?case by simp
next
  case (Cons x xs)
  from Cons.prems obtain out' where "f x out = Inr out'" by auto
  moreover from Cons obtain r where "foldE f xs out' = Inr r" by (meson list.set_intros(2))
  ultimately show ?case by simp
qed

lemma hexToFloatLE_HEX8:
  "HEX8_RE s \<Longrightarrow> hexToFloatLE P s = Inr (float32Value P (float32OfBytesLE (bufferFromHex s)))"
  by (simp add: hexToFloatLE_def)

lemma size_prop_less: "(k, v) \<in> set props \<Longrightarrow> size v < size (JObject props)"
  using size_json_prop [of k v props] by simp

lemma size_prop_item_less:
  "(k, v) \<in> set props \<Longrightarrow> e \<in> set (arrayItems v) \<Longrightarrow> size e < size (JObject props)"
  using size_json_prop_item [of k v props e] by simp

lemma size_item_less: "x \<in> set xs \<Longrightarrow> size x < size (JArray xs)"
  using size_json_member [of x xs] by simp

lemma transformForDecrypt_total:
  "(\<exists>t. transformValueForDecrypt P v = Inr t) \<and> (\<exists>t. transformStyleForDecrypt P v = Inr t)"
proof (induction v rule: measure_induct_rule [where f = size])
  case (less v)
  have val: "\<exists>t. transformValueForDecrypt P v = Inr t"
  proof (cases v)
    case (JArray xs)
    have "\<exists>ys. mapE (transformValueForDecrypt P) xs = Inr ys"
      by (rule mapE_total) (use less JArray size_item_less in blast)
    then show ?thesis by (auto simp: JArray)
  next
    case (JObject props)
    have "\<exists>r. foldE (\<lambda>(key, v) out.
        if key = ''pitch_model'' then
          (if hasOwnProperty props ''sing_model'' then Inr out
           else bindE (transformValueForDecrypt P v) (\<lambda>w. Inr (setProp ''sing_model'' w out)))
        else if key = ''styles'' \<and> isArray v then
          bindE (mapE (transformStyleForDecrypt P) (arrayItems v))
            (\<lambda>ws. Inr (setProp ''styles'' (JArray ws) out))
        else bindE (transformValueForDecrypt P v) (\<lambda>w. Inr (setProp key w out))) props [] = Inr r"
    proof (rule foldE_total, clarify)
      fix key w out
      assume m: "(key, w) \<in> set props"
      obtain t where t: "transformValueForDecrypt P w = Inr t"
        using less [of w] size_prop_less [OF m] JObject by auto
      have "\<exists>ws. mapE (transformStyleForDecrypt P) (arrayItems w) = Inr ws"
        by (rule mapE_total) (use less JObject size_prop_item_less [OF m] in blast)
      then obtain ws where ws: "mapE (transformStyleForDecrypt P) (arrayItems w) = Inr ws" ..
      show "\<exists>out'. (if key = ''pitch_model'' then
          (if hasOwnProperty props ''sing_model'' then Inr out
           else bindE (transformValueForDecrypt P w) (\<lambda>w. Inr (setProp ''sing_model'' w out)))
        else if key = ''styles'' \<and> isArray w then
          bindE (mapE (transformStyleForDecrypt P) (arrayItems w))
            (\<lambda>ws. Inr (setProp ''styles'' (JArray ws) out))
        else bindE (transformValueForDecrypt P w) (\<lambda>w. Inr (setProp key w out))) = Inr out'"
        by (simp add: t ws)
    qed
    then show ?thesis by (auto simp: JObject Let_def)
  qed simp_all
  have "\<exists>t. transformStyleForDecrypt P v = Inr t"
  proof (cases v)
    case (JObject props)
    have "\<exists>r. foldE (\<lambda>(key, extra) out.
        if key = ''extra'' then
          (case extra of
             JString s \<Rightarrow>
               if HEX8_RE s
               then bindE (hexToFloatLE P s) (\<lambda>x. Inr (setProp ''extra'' (JNumber x) out))
               else bindE (transformValueForDecrypt P extra)
                      (\<lambda>w. Inr (setProp ''extra'' w out))
           | _ \<Rightarrow> bindE (transformValueForDecrypt P extra) (\<lambda>w. Inr (setProp ''extra'' w out)))
        else bindE (transformValueForDecrypt P extra) (\<lambda>w. Inr (setProp key w out))) props [] = Inr r"
    proof (rule foldE_total, clarify)
      fix key w out
      assume m: "(key, w) \<in> set props"
      obtain t where t: "transformValueForDecrypt P w = Inr t"
        using less [of w] size_prop_less [OF m] JObject by auto
      show "\<exists>out'. (if key = ''extra'' then
          (case w of
             JString s \<Rightarrow>
               if HEX8_RE s
               then bindE (hexToFloatLE P s) (\<lambda>x. Inr (setProp ''extra'' (JNumber x) out))
               else bindE (transformValueForDecrypt P w)
                      (\<lambda>w. Inr (setProp ''extra'' w out))
           | _ \<Rightarrow> bindE (transformValueForDecrypt P w) (\<lambda>w. Inr (setProp ''extra'' w out)))
        else bindE (transformValueForDecrypt P w) (\<lambda>w. Inr (setProp key w out))) = Inr out'"
        using t by (cases w) (auto simp add: hexToFloatLE_HEX8 simp del: transformValueForDecrypt.simps)
    qed
    then show ?thesis by (auto simp: JObject)
  qed (use val in simp_all)
  with val show ?case by simp
qed


section \<open>Decrypting a container\<close>

lemma readUInt32LE_Inr:
  "offset + 4 \<le> length buf \<Longrightarrow> \<exists>n. readUInt32LE buf offset = Inr n"
  by (simp add: readUInt32LE_def)

lemma length_subarray: "e \<le> length buf \<Longrightarrow> length (subarray buf s e) = e - s"
  by (simp add: subarray_def)

lemma decryptNofsToJson_short:
  "length b < 216 \<Longrightarrow> decryptNofsToJson P b = Inl (Error ''Invalid NOFS file size.'')"
  by (simp add: decryptNofsToJson_def HEADER_SIZE_def)

lemma decryptNofsToJson_magic:
  "216 \<le> length b \<Longrightarrow> subarray b 192 196 \<noteq> SVDB_MAGIC \<Longrightarrow>
     decryptNofsToJson P b = Inl (Error ''Missing SVDB header.'')"
  by (simp add: decryptNofsToJson_def HEADER_SIZE_def Let_def)

lemma decryptNofsToJson_mismatch:
  assumes len: "216 \<le> length b" and magic: "subarray b 192 196 = SVDB_MAGIC"
    and bad: "readUInt32LE b 0xBC \<noteq> Inr (20 + (length b - 216))
         \<or> readUInt32LE b 0xB0 \<noteq> Inr (20 + (length b - 216) + 20)
         \<or> readUInt32LE b (length b - 4) \<noteq> Inr (20 + (length b - 216) + 20)"
  shows "decryptNofsToJson P b = Inl (Error ''NOFS length fields mismatch.'')"
proof -
  obtain x y z where r: "readUInt32LE b 0xBC = Inr x" "readUInt32LE b 0xB0 = Inr y"
      "readUInt32LE b (length b - 4) = Inr z"
    using readUInt32LE_Inr [of "0xBC" b] readUInt32LE_Inr [of "0xB0" b]
      readUInt32LE_Inr [of "length b - 4" b] len by auto
  have ct: "length (subarray b 212 (length b - 4)) = length b - 216"
    using len by (simp add: length_subarray)
  from bad r have "x \<noteq> 20 + (length b - 216) \<or> y \<noteq> 20 + (length b - 216) + 20
       \<or> z \<noteq> 20 + (length b - 216) + 20"
    by auto
  with len magic r ct show ?thesis
    by (auto simp add: decryptNofsToJson_def HEADER_SIZE_def Let_def)
qed

text \<open>
  Claim C6 (as amended). \<^verbatim>\<open>decryptNofsToJson\<close> fails with "Invalid NOFS file size."
  on every buffer shorter than 216 bytes, with "Missing SVDB header." on every longer
  buffer whose bytes 192 to 195 are not "SVDB", and, with the expected length 20 plus the
  ciphertext length (the buffer's length minus 216), with the one error "NOFS length
  fields mismatch." whenever the field at 0xBC differs from it or the field at 0xB0 or
  the trailer differs from it plus 20. The result is then an error and no JSON text.
\<close>

theorem decryptNofsToJson_rejects:
  "(length b < 216 \<longrightarrow> decryptNofsToJson P b = Inl (Error ''Invalid NOFS file size.''))
   \<and> (216 \<le> length b \<and> subarray b 192 196 \<noteq> SVDB_MAGIC \<longrightarrow>
        decryptNofsToJson P b = Inl (Error ''Missing SVDB header.''))
   \<and> (216 \<le> length b \<and> subarray b 192 196 = SVDB_MAGIC \<and>
        (readUInt32LE b 0xBC \<noteq> Inr (20 + (length b - 216))
         \<or> readUInt32LE b 0xB0 \<noteq> Inr (20 + (length b - 216) + 20)
         \<or> readUInt32LE b (length b - 4) \<noteq> Inr (20 + (length b - 216) + 20)) \<longrightarrow>
        decryptNofsToJson P b = Inl (Error ''NOFS length fields mismatch.''))"
  using decryptNofsToJson_short [of b P] decryptNofsToJson_magic [of b P]
    decryptNofsToJson_mismatch [of b P]
  by blast

lemma subarray_cong:
  assumes "length b' = length b" and "\<And>i. s \<le> i \<Longrightarrow> i < length b \<Longrightarrow> b' ! i = b ! i"
  shows "subarray b' s e = subarray b s e"
proof -
  have "drop s (take e b') ! i = drop s (take e b) ! i" if "i < min (length b) e - s" for i
  proof -
    have "s + i < length b" "s + i < e" using that by auto
    then show ?thesis using assms by simp
  qed
  then show ?thesis
    unfolding subarray_def by (intro nth_equalityI) (simp_all add: assms(1))
qed

lemma readUInt32LE_cong:
  assumes "length b' = length b"
    and "\<And>i. offset \<le> i \<Longrightarrow> i < offset + 4 \<Longrightarrow> i < length b \<Longrightarrow> b' ! i = b ! i"
  shows "readUInt32LE b' offset = readUInt32LE b offset"
  using assms by (simp add: readUInt32LE_def)

lemma decryptNofsToJson_header_independent:
  assumes len: "length b' = length b"
    and eq: "\<And>i. i < length b \<Longrightarrow> (176 \<le> i \<and> i < 180) \<or> 188 \<le> i \<Longrightarrow> b' ! i = b ! i"
  shows "decryptNofsToJson P b' = decryptNofsToJson P b"
proof -
  have s: "subarray b' s e = subarray b s e" if "188 \<le> s" for s e
    by (rule subarray_cong [OF len]) (use eq that in auto)
  have r1: "readUInt32LE b' 0xbc = readUInt32LE b 0xbc"
    by (rule readUInt32LE_cong [OF len]) (use eq in auto)
  have r2: "readUInt32LE b' 0xb0 = readUInt32LE b 0xb0"
    by (rule readUInt32LE_cong [OF len]) (use eq in auto)
  have r3: "readUInt32LE b' (length b - 4) = readUInt32LE b (length b - 4)" if "216 \<le> length b"
  proof (rule readUInt32LE_cong [OF len])
    fix i assume "length b - 4 \<le> i" "i < length b"
    with that have "i < length b" "188 \<le> i" by auto
    then show "b' ! i = b ! i" using eq by blast
  qed
  show ?thesis
  proof (cases "length b < 216")
    case True
    then show ?thesis by (simp add: decryptNofsToJson_def len HEADER_SIZE_def)
  next
    case False
    then show ?thesis
      using r3 by (simp add: decryptNofsToJson_def len HEADER_SIZE_def s r1 r2 Let_def cong: if_cong)
  qed
qed

text \<open>
  Claim C10 (as amended). A buffer of at least 216 bytes with "SVDB" at offset 192, whose
  three length fields are the values computed from its own length (at 0xBC the length of
  the ciphertext plus 20, that is the length of the buffer minus 196; at 0xB0 and in the
  last four bytes that value plus 20), and whose ciphertext deciphers to text the JSON
  parser accepts, is decrypted to the JSON text of the transformed document; and the
  result of \<^verbatim>\<open>decryptNofsToJson\<close> on any buffer is the same for every other buffer of
  that length that agrees with it from offset 188 on and at offsets 176 to 179, whatever
  the other 184 header bytes are.
\<close>

theorem decryptNofsToJson_accepts:
  assumes len: "216 \<le> length b"
    and magic: "subarray b 192 196 = SVDB_MAGIC"
    and f1: "readUInt32LE b 0xBC = Inr (20 + (length b - 216))"
    and f2: "readUInt32LE b 0xB0 = Inr (20 + (length b - 216) + 20)"
    and f3: "readUInt32LE b (length b - 4) = Inr (20 + (length b - 216) + 20)"
    and dec: "aes256cbcDecrypt P KEY (subarray b 196 212) (subarray b 212 (length b - 4))
                = Inr plaintext"
    and parse: "jsonParse P (utf8Decode P plaintext) = Inr parsed"
  shows "(\<exists>t. transformValueForDecrypt P parsed = Inr t
            \<and> decryptNofsToJson P b = Inr (jsonStringify P t))
       \<and> (\<forall>b'. length b' = length b
              \<and> (\<forall>i < length b. (176 \<le> i \<and> i < 180) \<or> 188 \<le> i \<longrightarrow> b' ! i = b ! i)
            \<longrightarrow> decryptNofsToJson P b' = decryptNofsToJson P b)"
proof (intro conjI allI impI)
  obtain t where t: "transformValueForDecrypt P parsed = Inr t"
    using transformForDecrypt_total [of P parsed] by auto
  have ct: "length (subarray b 212 (length b - 4)) = length b - 216"
    using len by (simp add: length_subarray)
  have "decryptNofsToJson P b = Inr (jsonStringify P t)"
    using len magic f1 f2 f3 dec parse t ct
    by (simp add: decryptNofsToJson_def HEADER_SIZE_def Let_def transformJsonForDecrypt_def)
  with t show "\<exists>t. transformValueForDecrypt P parsed = Inr t
            \<and> decryptNofsToJson P b = Inr (jsonStringify P t)"
    by auto
next
  fix b'
  assume "length b' = length b
      \<and> (\<forall>i < length b. (176 \<le> i \<and> i < 180) \<or> 188 \<le> i \<longrightarrow> b' ! i = b ! i)"
  then show "decryptNofsToJson P b' = decryptNofsToJson P b"
    using decryptNofsToJson_header_independent [of b' b P] by blast
qed


text \<open>
  Sample containers: an all-zero header apart from the two length fields, a zero
  initialisation vector, and the given magic, ciphertext and trailer.
\<close>

definition zeroHeaderContainer ::
    "byte list \<Rightarrow> byte list \<Rightarrow> byte list \<Rightarrow> byte list \<Rightarrow> byte list \<Rightarrow> byte list" where
  "zeroHeaderContainer totalField svdbField magic ciphertext trailer =
     replicate 176 0 @ totalField @ replicate 8 0 @ svdbField @ magic @ replicate 16 0
       @ ciphertext @ trailer"

definition badSvdbContainer :: "byte list" where
  "badSvdbContainer = zeroHeaderContainer [40, 0, 0, 0] [21, 0, 0, 0] SVDB_MAGIC [] [40, 0, 0, 0]"

definition badTrailerContainer :: "byte list" where
  "badTrailerContainer = zeroHeaderContainer [40, 0, 0, 0] [20, 0, 0, 0] SVDB_MAGIC [] [41, 0, 0, 0]"

definition badMagicContainer :: "byte list" where
  "badMagicContainer =
     zeroHeaderContainer [40, 0, 0, 0] [20, 0, 0, 0] [0x53, 0x56, 0x44, 0x43] [] [40, 0, 0, 0]"

definition nullContainer :: "byte list" where
  "nullContainer =
     zeroHeaderContainer [56, 0, 0, 0] [36, 0, 0, 0] SVDB_MAGIC
       ([110, 117, 108, 108] @ replicate 12 12) [56, 0, 0, 0]"

definition staleFieldsContainer :: "byte list" where
  "staleFieldsContainer =
     zeroHeaderContainer [40, 0, 0, 0] [20, 0, 0, 0] SVDB_MAGIC
       ([110, 117, 108, 108] @ replicate 12 12) [40, 0, 0, 0]"


lemma zeroHeaderContainer_layout:
  assumes "length totalField = 4" "length svdbField = 4" "length magic = 4" "length trailer = 4"
  shows "length (zeroHeaderContainer totalField svdbField magic ciphertext trailer)
           = 216 + length ciphertext"
    and "readUInt32LE (zeroHeaderContainer totalField svdbField magic ciphertext trailer) 0xB0
           = readUInt32LE totalField 0"
    and "readUInt32LE (zeroHeaderContainer totalField svdbField magic ciphertext trailer) 0xBC
           = readUInt32LE svdbField 0"
    and "readUInt32LE (zeroHeaderContainer totalField svdbField magic ciphertext trailer)
           (212 + length ciphertext) = readUInt32LE trailer 0"
    and "subarray (zeroHeaderContainer totalField svdbField magic ciphertext trailer) 192 196
           = magic"
    and "subarray (zeroHeaderContainer totalField svdbField magic ciphertext trailer) 196 212
           = replicate 16 0"
    and "subarray (zeroHeaderContainer totalField svdbField magic ciphertext trailer) 212
           (212 + length ciphertext) = ciphertext"
    and "take 176 (zeroHeaderContainer totalField svdbField magic ciphertext trailer)
           = replicate 176 0"
  using assms
  by (simp_all add: zeroHeaderContainer_def readUInt32LE_def subarray_def nth_append numeral_2_eq_2)


lemma sample_fields:
  "readUInt32LE [20, 0, 0, 0] 0 = Inr 20" "readUInt32LE [21, 0, 0, 0] 0 = Inr 21"
  "readUInt32LE [36, 0, 0, 0] 0 = Inr 36" "readUInt32LE [40, 0, 0, 0] 0 = Inr 40"
  "readUInt32LE [41, 0, 0, 0] 0 = Inr 41" "readUInt32LE [56, 0, 0, 0] 0 = Inr 56"
  by (simp_all add: readUInt32LE_def)

text \<open>
  Claim C6 as stated fails: the error does not name the check that failed. A container
  whose only wrong field is the one at 0xBC and a container whose only wrong field is the
  trailer are rejected with the same error.
\<close>

theorem decryptNofsToJson_mismatch_not_named:
  "decryptNofsToJson testPlatform badSvdbContainer = Inl (Error ''NOFS length fields mismatch.'')
   \<and> decryptNofsToJson testPlatform badTrailerContainer
        = Inl (Error ''NOFS length fields mismatch.'')
   \<and> length badSvdbContainer = 216 \<and> length badTrailerContainer = 216
   \<and> readUInt32LE badSvdbContainer 0xBC = Inr 21
   \<and> readUInt32LE badSvdbContainer 0xB0 = Inr 40
   \<and> readUInt32LE badSvdbContainer 212 = Inr 40
   \<and> readUInt32LE badTrailerContainer 0xBC = Inr 20
   \<and> readUInt32LE badTrailerContainer 0xB0 = Inr 40
   \<and> readUInt32LE badTrailerContainer 212 = Inr 41"
proof -
  have a: "length badSvdbContainer = 216" "subarray badSvdbContainer 192 196 = SVDB_MAGIC"
    "readUInt32LE badSvdbContainer 0xBC = Inr 21" "readUInt32LE badSvdbContainer 0xB0 = Inr 40"
    "readUInt32LE badSvdbContainer 212 = Inr 40"
    using zeroHeaderContainer_layout [of "[40, 0, 0, 0]" "[21, 0, 0, 0]" SVDB_MAGIC "[40, 0, 0, 0]" "[]"]
    by (simp_all add: badSvdbContainer_def SVDB_MAGIC_def sample_fields)
  have b: "length badTrailerContainer = 216" "subarray badTrailerContainer 192 196 = SVDB_MAGIC"
    "readUInt32LE badTrailerContainer 0xBC = Inr 20" "readUInt32LE badTrailerContainer 0xB0 = Inr 40"
    "readUInt32LE badTrailerContainer 212 = Inr 41"
    using zeroHeaderContainer_layout [of "[40, 0, 0, 0]" "[20, 0, 0, 0]" SVDB_MAGIC "[41, 0, 0, 0]" "[]"]
    by (simp_all add: badTrailerContainer_def SVDB_MAGIC_def sample_fields)
  have "decryptNofsToJson testPlatform badSvdbContainer
          = Inl (Error ''NOFS length fields mismatch.'')"
    by (rule decryptNofsToJson_mismatch) (simp_all add: a)
  moreover have "decryptNofsToJson testPlatform badTrailerContainer
          = Inl (Error ''NOFS length fields mismatch.'')"
    by (rule decryptNofsToJson_mismatch) (simp_all add: b)
  ultimately show ?thesis using a b by simp
qed

theorem decryptNofsToJson_rejects_witness:
  "decryptNofsToJson testPlatform [] = Inl (Error ''Invalid NOFS file size.'')
   \<and> decryptNofsToJson testPlatform badMagicContainer = Inl (Error ''Missing SVDB header.'')
   \<and> decryptNofsToJson testPlatform badTrailerContainer
        = Inl (Error ''NOFS length fields mismatch.'')"
proof -
  have h1: "length ([] :: byte list) < 216" by simp
  have h2: "216 \<le> length badMagicContainer \<and> subarray badMagicContainer 192 196 \<noteq> SVDB_MAGIC"
    using zeroHeaderContainer_layout
      [of "[40, 0, 0, 0]" "[20, 0, 0, 0]" "[0x53, 0x56, 0x44, 0x43]" "[40, 0, 0, 0]" "[]"]
    by (simp add: badMagicContainer_def SVDB_MAGIC_def)
  have h3: "216 \<le> length badTrailerContainer
      \<and> subarray badTrailerContainer 192 196 = SVDB_MAGIC
      \<and> (readUInt32LE badTrailerContainer 0xBC \<noteq> Inr (20 + (length badTrailerContainer - 216))
         \<or> readUInt32LE badTrailerContainer 0xB0
              \<noteq> Inr (20 + (length badTrailerContainer - 216) + 20)
         \<or> readUInt32LE badTrailerContainer (length badTrailerContainer - 4)
              \<noteq> Inr (20 + (length badTrailerContainer - 216) + 20))"
    using zeroHeaderContainer_layout [of "[40, 0, 0, 0]" "[20, 0, 0, 0]" SVDB_MAGIC "[41, 0, 0, 0]" "[]"]
    by (simp add: badTrailerContainer_def SVDB_MAGIC_def sample_fields)
  show ?thesis
    using h1 h2 h3
      decryptNofsToJson_rejects [of "[]" testPlatform]
      decryptNofsToJson_rejects [of badMagicContainer testPlatform]
      decryptNofsToJson_rejects [of badTrailerContainer testPlatform]
    by blast
qed

text \<open>
  Claim C10 as stated fails: length fields that agree with one another are not enough.
  In this container the field at 0xBC is 20 and the field at 0xB0 and the trailer are
  both 20 + 20, the magic is "SVDB" and the ciphertext deciphers to the JSON text
  \<^verbatim>\<open>null\<close>; it is rejected, because its 16 bytes of ciphertext make the expected values
  36 and 56.
\<close>

theorem decryptNofsToJson_consistent_fields_rejected:
  "216 \<le> length staleFieldsContainer
   \<and> subarray staleFieldsContainer 192 196 = SVDB_MAGIC
   \<and> readUInt32LE staleFieldsContainer 0xBC = Inr 20
   \<and> readUInt32LE staleFieldsContainer 0xB0 = Inr (20 + 20)
   \<and> readUInt32LE staleFieldsContainer (length staleFieldsContainer - 4) = Inr (20 + 20)
   \<and> aes256cbcDecrypt testPlatform KEY (subarray staleFieldsContainer 196 212)
        (subarray staleFieldsContainer 212 (length staleFieldsContainer - 4))
        = Inr (utf8Encode testPlatform ''null'')
   \<and> jsonParse testPlatform (utf8Decode testPlatform (utf8Encode testPlatform ''null''))
        = Inr JNull
   \<and> decryptNofsToJson testPlatform staleFieldsContainer
        = Inl (Error ''NOFS length fields mismatch.'')"
proof -
  let ?ct = "[110, 117, 108, 108] @ replicate 12 (12 :: byte)"
  note lay = zeroHeaderContainer_layout
      [of "[40, 0, 0, 0]" "[20, 0, 0, 0]" SVDB_MAGIC "[40, 0, 0, 0]" ?ct]
  have l: "length staleFieldsContainer = 232"
    using lay(1) by (simp add: SVDB_MAGIC_def staleFieldsContainer_def)
  have h: "216 \<le> length staleFieldsContainer"
    "subarray staleFieldsContainer 192 196 = SVDB_MAGIC"
    "readUInt32LE staleFieldsContainer 0xBC = Inr 20"
    "readUInt32LE staleFieldsContainer 0xB0 = Inr (20 + 20)"
    "readUInt32LE staleFieldsContainer (length staleFieldsContainer - 4) = Inr (20 + 20)"
    using lay by (simp_all add: l SVDB_MAGIC_def sample_fields staleFieldsContainer_def)
  have d: "aes256cbcDecrypt testPlatform KEY (subarray staleFieldsContainer 196 212)
        (subarray staleFieldsContainer 212 (length staleFieldsContainer - 4))
        = Inr (utf8Encode testPlatform ''null'')"
  proof -
    have s1: "subarray staleFieldsContainer 196 212 = replicate 16 0"
      and s2: "subarray staleFieldsContainer 212 228 = ?ct"
      using lay(6,7) by (simp_all add: SVDB_MAGIC_def staleFieldsContainer_def)
    show ?thesis
      by (simp add: l s1 s2) (simp add: testPlatform_def testUnpad_def)
  qed
  have p: "jsonParse testPlatform (utf8Decode testPlatform (utf8Encode testPlatform ''null''))
        = Inr JNull"
    by code_simp
  have "readUInt32LE staleFieldsContainer 0xBC
      \<noteq> Inr (20 + (length staleFieldsContainer - 216))"
    using h(3) by (simp add: l)
  then have "decryptNofsToJson testPlatform staleFieldsContainer
      = Inl (Error ''NOFS length fields mismatch.'')"
    using h(1,2) by (intro decryptNofsToJson_mismatch) simp_all
  with h d p show ?thesis by simp
qed

theorem decryptNofsToJson_accepts_witness:
  "decryptNofsToJson testPlatform nullContainer = Inr ''null''
   \<and> take 176 nullContainer = replicate 176 0
   \<and> hd (bufferFromHex HEADER_TEMPLATE_HEX) \<noteq> 0"
proof -
  let ?ct = "[110, 117, 108, 108] @ replicate 12 (12 :: byte)"
  note lay = zeroHeaderContainer_layout
      [of "[56, 0, 0, 0]" "[36, 0, 0, 0]" SVDB_MAGIC "[56, 0, 0, 0]" ?ct]
  have l: "length nullContainer = 232"
    using lay(1) by (simp add: SVDB_MAGIC_def nullContainer_def)
  have h: "216 \<le> length nullContainer"
    "subarray nullContainer 192 196 = SVDB_MAGIC"
    "readUInt32LE nullContainer 0xBC = Inr (20 + (length nullContainer - 216))"
    "readUInt32LE nullContainer 0xB0 = Inr (20 + (length nullContainer - 216) + 20)"
    "readUInt32LE nullContainer (length nullContainer - 4)
        = Inr (20 + (length nullContainer - 216) + 20)"
    using lay by (simp_all add: l SVDB_MAGIC_def sample_fields nullContainer_def)
  have d: "aes256cbcDecrypt testPlatform KEY (subarray nullContainer 196 212)
        (subarray nullContainer 212 (length nullContainer - 4))
        = Inr (utf8Encode testPlatform ''null'')"
  proof -
    have s1: "subarray nullContainer 196 212 = replicate 16 0"
      and s2: "subarray nullContainer 212 228 = ?ct"
      using lay(6,7) by (simp_all add: SVDB_MAGIC_def nullContainer_def)
    show ?thesis
      by (simp add: l s1 s2) (simp add: testPlatform_def testUnpad_def)
  qed
  have p: "jsonParse testPlatform (utf8Decode testPlatform (utf8Encode testPlatform ''null''))
        = Inr JNull"
    by code_simp
  have s: "jsonStringify testPlatform JNull = ''null''"
    by (simp add: testPlatform_def testStringify_def)
  have t: "take 176 nullContainer = replicate 176 0"
    using lay(8) by (simp add: SVDB_MAGIC_def nullContainer_def)
  have u: "hd (bufferFromHex HEADER_TEMPLATE_HEX) \<noteq> 0"
    by (simp add: HEADER_TEMPLATE_HEX_def isHexChar_def hexVal_def)
  from decryptNofsToJson_accepts [OF h d p]
  have "decryptNofsToJson testPlatform nullContainer = Inr (jsonStringify testPlatform JNull)"
    by simp
  with s t u show ?thesis by simp
qed

section \<open>What the encrypting transform does to an object\<close>

text \<open>The bodies of the two loops of the encrypting transform, as functions of their own.\<close>

definition encryptStep ::
    "'n platform \<Rightarrow> bool \<Rightarrow> string \<times> 'n json \<Rightarrow> (string \<times> 'n json) list \<Rightarrow> (string \<times> 'n json) list" where
  "encryptStep P hasPitch = (\<lambda>(key, v) out.
        if key = ''sing_model'' then
          (if hasPitch then out
           else setProp ''pitch_model'' (transformValueForEncrypt P v) out)
        else if key = ''styles'' \<and> isArray v then
          setProp ''styles'' (JArray (map (transformStyleForEncrypt P) (arrayItems v))) out
        else setProp key (transformValueForEncrypt P v) out)"

definition styleEncryptStep ::
    "'n platform \<Rightarrow> string \<times> 'n json \<Rightarrow> (string \<times> 'n json) list \<Rightarrow> (string \<times> 'n json) list" where
  "styleEncryptStep P = (\<lambda>(key, extra) out.
        if key = ''extra'' then
          (case extra of
             JNumber x \<Rightarrow>
               if isFinite P x then setProp ''extra'' (JString (floatToHexLE P x)) out
               else setProp ''extra'' extra out
           | JString s \<Rightarrow>
               if HEX8_RE s then setProp ''extra'' (JString (toUpperCase s)) out
               else setProp ''extra'' extra out
           | _ \<Rightarrow> setProp ''extra'' extra out)
        else setProp key (transformValueForEncrypt P extra) out)"

lemma transformValueForEncrypt_object:
  "transformValueForEncrypt P (JObject props)
     = JObject (fold (encryptStep P (hasOwnProperty props ''pitch_model'')) props [])"
  by (simp add: encryptStep_def Let_def)

lemma transformStyleForEncrypt_object:
  "transformStyleForEncrypt P (JObject props) = JObject (fold (styleEncryptStep P) props [])"
  by (simp add: styleEncryptStep_def)

text \<open>The spec's words: what becomes of one property of an object, and of a style entry.\<close>

definition legacyProperty ::
    "'n platform \<Rightarrow> bool \<Rightarrow> string \<times> 'n json \<Rightarrow> (string \<times> 'n json) option" where
  "legacyProperty P hasPitch kv =
     (case kv of (key, v) \<Rightarrow>
        if key = ''sing_model'' then
          (if hasPitch then None else Some (''pitch_model'', transformValueForEncrypt P v))
        else if key = ''styles'' \<and> isArray v then
          Some (''styles'', JArray (map (transformStyleForEncrypt P) (arrayItems v)))
        else Some (key, transformValueForEncrypt P v))"

definition legacyExtra :: "'n platform \<Rightarrow> 'n json \<Rightarrow> 'n json" where
  "legacyExtra P extra =
     (case extra of
        JNumber x \<Rightarrow> if isFinite P x then JString (floatToHexLE P x) else extra
      | JString s \<Rightarrow> if HEX8_RE s then JString (toUpperCase s) else extra
      | _ \<Rightarrow> extra)"

definition legacyStyleProperty :: "'n platform \<Rightarrow> string \<times> 'n json \<Rightarrow> string \<times> 'n json" where
  "legacyStyleProperty P kv =
     (case kv of (key, v) \<Rightarrow>
        (key, if key = ''extra'' then legacyExtra P v else transformValueForEncrypt P v))"

lemma update_fresh: "k \<notin> fst ` set al \<Longrightarrow> AList.update k v al = al @ [(k, v)]"
  by (induction al) auto

lemma setProp_fresh:
  "key \<noteq> ''__proto__'' \<Longrightarrow> key \<notin> fst ` set out \<Longrightarrow> setProp key v out = out @ [(key, v)]"
  by (simp add: setProp_def update_fresh)

lemma setProp_keys: "fst ` set (setProp key v out) \<subseteq> insert key (fst ` set out)"
  by (auto simp: setProp_def dom_update)

lemma encryptStep_legacyProperty:
  "encryptStep P hp kv out =
     (case legacyProperty P hp kv of None \<Rightarrow> out | Some (k, w) \<Rightarrow> setProp k w out)"
  by (cases kv) (simp add: encryptStep_def legacyProperty_def)

lemma styleEncryptStep_legacyStyleProperty:
  "styleEncryptStep P kv out =
     (case legacyStyleProperty P kv of (k, w) \<Rightarrow> setProp k w out)"
  by (cases kv)
     (simp add: styleEncryptStep_def legacyStyleProperty_def legacyExtra_def split: json.split)

lemma fold_assign_fresh:
  assumes "distinct (map fst (List.map_filter f xs))"
    and "fst ` set (List.map_filter f xs) \<inter> fst ` set out = {}"
    and "''__proto__'' \<notin> fst ` set (List.map_filter f xs)"
  shows "fold (\<lambda>x out. case f x of None \<Rightarrow> out | Some (k, w) \<Rightarrow> setProp k w out) xs out
           = out @ List.map_filter f xs"
  using assms
proof (induction xs arbitrary: out)
  case Nil
  show ?case by simp
next
  case (Cons x xs)
  show ?case
  proof (cases "f x")
    case None
    with Cons show ?thesis by simp
  next
    case (Some kw)
    obtain k w where kw: "kw = (k, w)" by (cases kw)
    have fr: "k \<noteq> ''__proto__''" "k \<notin> fst ` set out"
      using Cons.prems Some kw by auto
    have "fold (\<lambda>x out. case f x of None \<Rightarrow> out | Some (k, w) \<Rightarrow> setProp k w out) xs
            (out @ [(k, w)]) = (out @ [(k, w)]) @ List.map_filter f xs"
      using Cons.prems Some kw by (intro Cons.IH) auto
    then show ?thesis
      using Some kw fr by (simp add: setProp_fresh)
  qed
qed

lemma legacyProperty_keys:
  "map fst (List.map_filter (legacyProperty P hp) props)
     = map (\<lambda>k. if k = ''sing_model'' then ''pitch_model'' else k)
         (filter (\<lambda>k. \<not> (k = ''sing_model'' \<and> hp)) (map fst props))"
  by (induction props) (auto simp: legacyProperty_def)

lemma distinct_legacy_keys:
  assumes "distinct ks" and "hp \<or> ''pitch_model'' \<notin> set ks"
  shows "distinct (map (\<lambda>k. if k = ''sing_model'' then ''pitch_model'' else k)
         (filter (\<lambda>k. \<not> (k = ''sing_model'' \<and> hp)) ks))"
  using assms by (induction ks) (auto split: if_splits)

lemma transformValueForEncrypt_object_distinct:
  assumes "distinct (map fst props)" and "''__proto__'' \<notin> fst ` set props"
  shows "transformValueForEncrypt P (JObject props)
           = JObject (List.map_filter
               (legacyProperty P (hasOwnProperty props ''pitch_model'')) props)"
proof -
  let ?hp = "hasOwnProperty props ''pitch_model''"
  have d: "distinct (map fst (List.map_filter (legacyProperty P ?hp) props))"
    unfolding legacyProperty_keys
    by (rule distinct_legacy_keys) (use assms in \<open>auto simp: hasOwnProperty_def\<close>)
  have p: "''__proto__'' \<notin> fst ` set (List.map_filter (legacyProperty P ?hp) props)"
  proof -
    have "''__proto__'' \<notin> set (map fst (List.map_filter (legacyProperty P ?hp) props))"
      unfolding legacyProperty_keys using assms(2) by (auto split: if_splits)
    then show ?thesis by simp
  qed
  have "fold (encryptStep P ?hp) props []
          = [] @ List.map_filter (legacyProperty P ?hp) props"
    using fold_assign_fresh [of "legacyProperty P ?hp" props "[]", OF d _ p]
    by (simp add: encryptStep_legacyProperty [abs_def])
  then show ?thesis unfolding transformValueForEncrypt_object by simp
qed


lemma transformStyleForEncrypt_object_distinct:
  assumes "distinct (map fst props)" and "''__proto__'' \<notin> fst ` set props"
  shows "transformStyleForEncrypt P (JObject props) = JObject (map (legacyStyleProperty P) props)"
proof -
  have k: "fst \<circ> legacyStyleProperty P = fst"
    by (auto simp: fun_eq_iff legacyStyleProperty_def)
  have m: "List.map_filter (\<lambda>x. Some (legacyStyleProperty P x)) props
             = map (legacyStyleProperty P) props"
    by (induction props) auto
  have "fold (\<lambda>x out. case Some (legacyStyleProperty P x) of None \<Rightarrow> out
                        | Some (k, w) \<Rightarrow> setProp k w out) props []
          = [] @ List.map_filter (\<lambda>x. Some (legacyStyleProperty P x)) props"
    by (rule fold_assign_fresh) (use assms in \<open>simp_all add: m k flip: set_map\<close>)
  then have "fold (styleEncryptStep P) props [] = map (legacyStyleProperty P) props"
    by (simp add: m styleEncryptStep_legacyStyleProperty [abs_def])
  then show ?thesis unfolding transformStyleForEncrypt_object by simp
qed









text \<open>
  No object visited by the encrypting transform has the key \<^verbatim>\<open>sing_model\<close> in the
  result. The objects it does not visit are the entries of an array under the
  \<^verbatim>\<open>styles\<close> key of an object it visits (the style transform keeps their own keys) and
  what lies under the \<^verbatim>\<open>extra\<close> key of such an entry. The other values of a style entry,
  an array under its \<^verbatim>\<open>styles\<close> key too, are visited.
\<close>

function (sequential)
  singFree :: "'n json \<Rightarrow> bool" and
  singFreeStyle :: "'n json \<Rightarrow> bool"
where
  "singFree (JArray entries) = list_all singFree entries"
| "singFree (JObject props) =
     (\<not> hasOwnProperty props ''sing_model'' \<and>
      list_all (\<lambda>(key, v).
        if key = ''styles'' \<and> isArray v then list_all singFreeStyle (arrayItems v)
        else singFree v) props)"
| "singFree v = True"
| "singFreeStyle (JObject props) = list_all (\<lambda>(key, v). key = ''extra'' \<or> singFree v) props"
| "singFreeStyle v = singFree v"
  by pat_completeness auto
termination
  by (relation "measure (case_sum (\<lambda>v. 2 * size v) (\<lambda>v. 2 * size v + 1))")
     (auto dest: size_json_member size_json_prop size_json_prop_item)






lemma isArray_transformValueForEncrypt [simp]:
  "isArray (transformValueForEncrypt P v) = isArray v"
  by (cases v) (simp_all add: Let_def)

lemma isPlainObject_transformValueForEncrypt [simp]:
  "isPlainObject (transformValueForEncrypt P v) = isPlainObject v"
  by (cases v) (simp_all add: Let_def)

lemma singFreeStyle_not_object: "\<not> isPlainObject v \<Longrightarrow> singFreeStyle v = singFree v"
  by (cases v) simp_all

lemma transformStyleForEncrypt_not_object:
  "\<not> isPlainObject v \<Longrightarrow> transformStyleForEncrypt P v = transformValueForEncrypt P v"
  by (cases v) simp_all




text \<open>A sample document, in its modern and in its legacy form (0x3F000000 is 0.5).\<close>

definition sampleModern :: "32 word json" where
  "sampleModern =
     JObject [(''name'', JString ''Test''), (''sing_model'', JString ''abc123''),
       (''styles'', JArray [JObject [(''name'', JString ''Style1''),
          (''extra'', JNumber 0x3F000000)]])]"

definition sampleLegacy :: "32 word json" where
  "sampleLegacy =
     JObject [(''name'', JString ''Test''), (''pitch_model'', JString ''abc123''),
       (''styles'', JArray [JObject [(''name'', JString ''Style1''),
          (''extra'', JString ''0000003F'')]])]"





lemma floatToHexLE_half: "floatToHexLE testPlatform 0x3F000000 = ''0000003F''"
  by code_simp



section \<open>The float32 hex codec\<close>

lemma hex_digit_roundtrip:
  "\<forall>n \<in> set [0..<16]. isHexChar (toUpperChar (hexDigits ! n))
      \<and> hexVal (toUpperChar (hexDigits ! n)) = n"
  by code_simp

lemma hex_digit:
  assumes "n < 16"
  shows "isHexChar (toUpperChar (hexDigits ! n))" "hexVal (toUpperChar (hexDigits ! n)) = n"
  using hex_digit_roundtrip assms by auto

lemma bufferFromHex_byteToHex:
  "bufferFromHex (toUpperCase (byteToHex b) @ rest) = b # bufferFromHex rest"
proof -
  have hi: "unat b div 16 < 16"
    using unsigned_less [of b, where ?'a = nat] by (simp add: less_mult_imp_div_less)
  have lo: "unat b mod 16 < 16" by simp
  have "of_nat (16 * (unat b div 16) + unat b mod 16) = b"
    by simp
  then show ?thesis
    using hex_digit [OF hi] hex_digit [OF lo]
    by (simp add: byteToHex_def toUpperCase_def)
qed

lemma bufferFromHex_bufferToHex:
  "bufferFromHex (toUpperCase (bufferToHex bs)) = bs"
proof (induction bs)
  case Nil
  show ?case by (simp add: bufferToHex_def toUpperCase_def)
next
  case (Cons b bs)
  have "toUpperCase (bufferToHex (b # bs)) = toUpperCase (byteToHex b) @ toUpperCase (bufferToHex bs)"
    by (simp add: bufferToHex_def toUpperCase_def)
  with Cons show ?case by (simp add: bufferFromHex_byteToHex)
qed

lemma hexRE_bufferToHex: "hexRE (2 * length bs) (toUpperCase (bufferToHex bs))"
proof (induction bs)
  case Nil
  show ?case by (simp add: bufferToHex_def toUpperCase_def hexRE_def)
next
  case (Cons b bs)
  have hi: "unat b div 16 < 16"
    using unsigned_less [of b, where ?'a = nat] by (simp add: less_mult_imp_div_less)
  have lo: "unat b mod 16 < 16" by simp
  show ?case
    using Cons hex_digit(1) [OF hi] hex_digit(1) [OF lo]
    by (simp add: bufferToHex_def toUpperCase_def hexRE_def byteToHex_def)
qed

lemma float32OfBytesLE_float32BytesLE: "float32OfBytesLE (float32BytesLE w) = w"
  unfolding float32OfBytesLE_def float32BytesLE_def
  apply (rule bit_word_eqI)
  subgoal for n
    by (cases "n < 8"; cases "n < 16"; cases "n < 24") (auto simp: bit_simps)
  done

lemma HEX8_RE_floatToHexLE: "HEX8_RE (floatToHexLE P x)"
  using hexRE_bufferToHex [of "float32BytesLE (float32Bits P x)"]
  by (simp add: HEX8_RE_def floatToHexLE_def float32BytesLE_def)

lemma hexToFloatLE_floatToHexLE:
  "hexToFloatLE P (floatToHexLE P x) = Inr (float32Value P (float32Bits P x))"
  using HEX8_RE_floatToHexLE [of P x]
  by (simp add: hexToFloatLE_def)
     (simp add: floatToHexLE_def bufferFromHex_bufferToHex float32OfBytesLE_float32BytesLE)


section \<open>Round trips of the migration transforms\<close>

text \<open>The bodies of the two loops of the decrypting transform.\<close>

definition decryptStep ::
    "'n platform \<Rightarrow> bool \<Rightarrow> string \<times> 'n json \<Rightarrow> (string \<times> 'n json) list
       \<Rightarrow> error + (string \<times> 'n json) list" where
  "decryptStep P hasSing = (\<lambda>(key, v) out.
        if key = ''pitch_model'' then
          (if hasSing then Inr out
           else bindE (transformValueForDecrypt P v) (\<lambda>w. Inr (setProp ''sing_model'' w out)))
        else if key = ''styles'' \<and> isArray v then
          bindE (mapE (transformStyleForDecrypt P) (arrayItems v))
            (\<lambda>ws. Inr (setProp ''styles'' (JArray ws) out))
        else bindE (transformValueForDecrypt P v) (\<lambda>w. Inr (setProp key w out)))"

definition styleDecryptStep ::
    "'n platform \<Rightarrow> string \<times> 'n json \<Rightarrow> (string \<times> 'n json) list
       \<Rightarrow> error + (string \<times> 'n json) list" where
  "styleDecryptStep P = (\<lambda>(key, extra) out.
        if key = ''extra'' then
          (case extra of
             JString s \<Rightarrow>
               if HEX8_RE s
               then bindE (hexToFloatLE P s) (\<lambda>x. Inr (setProp ''extra'' (JNumber x) out))
               else bindE (transformValueForDecrypt P extra)
                      (\<lambda>w. Inr (setProp ''extra'' w out))
           | _ \<Rightarrow> bindE (transformValueForDecrypt P extra) (\<lambda>w. Inr (setProp ''extra'' w out)))
        else bindE (transformValueForDecrypt P extra) (\<lambda>w. Inr (setProp key w out)))"

lemma transformValueForDecrypt_object:
  "transformValueForDecrypt P (JObject props)
     = bindE (foldE (decryptStep P (hasOwnProperty props ''sing_model'')) props [])
         (\<lambda>out. Inr (JObject out))"
  by (simp add: decryptStep_def Let_def)

lemma transformStyleForDecrypt_object:
  "transformStyleForDecrypt P (JObject props)
     = bindE (foldE (styleDecryptStep P) props []) (\<lambda>out. Inr (JObject out))"
  by (simp add: styleDecryptStep_def)

lemma transformStyleForDecrypt_not_object:
  "\<not> isPlainObject v \<Longrightarrow> transformStyleForDecrypt P v = transformValueForDecrypt P v"
  by (cases v) simp_all

declare transformValueForEncrypt.simps(2) [simp del]
declare transformStyleForEncrypt.simps(1) [simp del]
declare transformValueForDecrypt.simps(2) [simp del]
declare transformStyleForDecrypt.simps(1) [simp del]

text \<open>
  The documents on which each round trip is the identity. In modern form, no object the
  transform reaches has the key \<^verbatim>\<open>pitch_model\<close>; under \<^verbatim>\<open>extra\<close>, a style entry
  holds no 8-digit hexadecimal string, a finite number only if it is a float32 value,
  and an array or object only if the decrypting transform leaves it unchanged. In legacy
  form, no reached object has the key \<^verbatim>\<open>sing_model\<close>; under \<^verbatim>\<open>extra\<close>, a style
  entry holds no finite number, an 8-digit hexadecimal string only if it decodes to a
  finite number that encodes to the same string, and an array or object only if the
  decrypting transform leaves it unchanged. In both, the keys of every reached object
  are distinct, as the properties of an object are, and none is \<^verbatim>\<open>__proto__\<close>.
\<close>

definition modernExtra :: "'n platform \<Rightarrow> 'n json \<Rightarrow> bool" where
  "modernExtra P extra =
     (case extra of
        JNumber x \<Rightarrow> isFinite P x \<longrightarrow> float32Value P (float32Bits P x) = x
      | JString s \<Rightarrow> \<not> HEX8_RE s
      | _ \<Rightarrow> transformValueForDecrypt P extra = Inr extra)"

function (sequential)
  modernForm :: "'n platform \<Rightarrow> 'n json \<Rightarrow> bool" and
  modernStyle :: "'n platform \<Rightarrow> 'n json \<Rightarrow> bool"
where
  "modernForm P (JArray entries) = list_all (modernForm P) entries"
| "modernForm P (JObject props) =
     (distinct (map fst props) \<and> \<not> hasOwnProperty props ''__proto__''
      \<and> \<not> hasOwnProperty props ''pitch_model''
      \<and> list_all (\<lambda>(key, v).
            if key = ''styles'' \<and> isArray v then list_all (modernStyle P) (arrayItems v)
            else modernForm P v) props)"
| "modernForm P v = True"
| "modernStyle P (JObject props) =
     (distinct (map fst props) \<and> \<not> hasOwnProperty props ''__proto__''
      \<and> list_all (\<lambda>(key, v).
            if key = ''extra'' then modernExtra P v else modernForm P v) props)"
| "modernStyle P v = modernForm P v"
  by pat_completeness auto
termination
  by (relation "measure (case_sum (\<lambda>(P, v). 2 * size v) (\<lambda>(P, v). 2 * size v + 1))")
     (auto dest: size_json_member size_json_prop size_json_prop_item)

definition legacyExtraOk :: "'n platform \<Rightarrow> 'n json \<Rightarrow> bool" where
  "legacyExtraOk P extra =
     (case extra of
        JNumber x \<Rightarrow> \<not> isFinite P x
      | JString s \<Rightarrow>
          HEX8_RE s \<longrightarrow>
            (case hexToFloatLE P s of
               Inl e \<Rightarrow> False
             | Inr x \<Rightarrow> isFinite P x \<and> floatToHexLE P x = s)
      | _ \<Rightarrow> transformValueForDecrypt P extra = Inr extra)"

function (sequential)
  legacyForm :: "'n platform \<Rightarrow> 'n json \<Rightarrow> bool" and
  legacyStyle :: "'n platform \<Rightarrow> 'n json \<Rightarrow> bool"
where
  "legacyForm P (JArray entries) = list_all (legacyForm P) entries"
| "legacyForm P (JObject props) =
     (distinct (map fst props) \<and> \<not> hasOwnProperty props ''__proto__''
      \<and> \<not> hasOwnProperty props ''sing_model''
      \<and> list_all (\<lambda>(key, v).
            if key = ''styles'' \<and> isArray v then list_all (legacyStyle P) (arrayItems v)
            else legacyForm P v) props)"
| "legacyForm P v = True"
| "legacyStyle P (JObject props) =
     (distinct (map fst props) \<and> \<not> hasOwnProperty props ''__proto__''
      \<and> list_all (\<lambda>(key, v).
            if key = ''extra'' then legacyExtraOk P v else legacyForm P v) props)"
| "legacyStyle P v = legacyForm P v"
  by pat_completeness auto
termination
  by (relation "measure (case_sum (\<lambda>(P, v). 2 * size v) (\<lambda>(P, v). 2 * size v + 1))")
     (auto dest: size_json_member size_json_prop size_json_prop_item)

lemma mapE_map_inverse:
  "(\<And>x. x \<in> set xs \<Longrightarrow> g (f x) = Inr x) \<Longrightarrow> mapE g (map f xs) = Inr xs"
  by (induction xs) simp_all

lemma mapE_inverse_map:
  "(\<And>x. x \<in> set xs \<Longrightarrow> \<exists>m. g x = Inr m \<and> f m = x) \<Longrightarrow>
     \<exists>ms. mapE g xs = Inr ms \<and> map f ms = xs"
proof (induction xs)
  case Nil
  show ?case by simp
next
  case (Cons x xs)
  from Cons.prems obtain m where "g x = Inr m" "f m = x" by auto
  moreover from Cons obtain ms where "mapE g xs = Inr ms" "map f ms = xs" by auto
  ultimately show ?case by simp
qed

lemma JArray_arrayItems: "isArray v \<Longrightarrow> JArray (arrayItems v) = v"
  by (cases v) simp_all

lemma decrypt_encrypt_props:
  assumes a1: "\<And>k v. (k, v) \<in> set rest \<Longrightarrow> \<not> (k = ''styles'' \<and> isArray v) \<Longrightarrow>
        transformValueForDecrypt P (transformValueForEncrypt P v) = Inr v"
    and a2: "\<And>k v. (k, v) \<in> set rest \<Longrightarrow> k = ''styles'' \<Longrightarrow> isArray v \<Longrightarrow>
        mapE (transformStyleForDecrypt P) (map (transformStyleForEncrypt P) (arrayItems v))
          = Inr (arrayItems v)"
    and "distinct (map fst rest)"
    and "fst ` set rest \<inter> fst ` set out = {}"
    and "''pitch_model'' \<notin> fst ` set rest"
    and "''__proto__'' \<notin> fst ` set rest"
  shows "foldE (decryptStep P False) (List.map_filter (legacyProperty P False) rest) out
           = Inr (out @ rest)"
  using assms
proof (induction rest arbitrary: out)
  case Nil
  show ?case by simp
next
  case (Cons kv rest)
  obtain k v where kv: "kv = (k, v)" by (cases kv)
  have fresh: "k \<noteq> ''__proto__''" "k \<notin> fst ` set out" "k \<noteq> ''pitch_model''"
    using Cons.prems(4,5,6) kv by auto
  have step: "\<exists>k' v'. legacyProperty P False kv = Some (k', v')
                \<and> decryptStep P False (k', v') out = Inr (out @ [(k, v)])"
  proof (cases "k = ''sing_model''")
    case True
    have "transformValueForDecrypt P (transformValueForEncrypt P v) = Inr v"
      using Cons.prems(1) [of k v] kv True by simp
    then show ?thesis
      using True fresh kv by (simp add: legacyProperty_def decryptStep_def setProp_fresh)
  next
    case ns: False
    show ?thesis
    proof (cases "k = ''styles'' \<and> isArray v")
      case True
      have "mapE (transformStyleForDecrypt P) (map (transformStyleForEncrypt P) (arrayItems v))
              = Inr (arrayItems v)"
        using Cons.prems(2) [of k v] kv True by simp
      then show ?thesis
        using True ns fresh kv
        by (simp add: legacyProperty_def decryptStep_def setProp_fresh JArray_arrayItems)
    next
      case False
      have "transformValueForDecrypt P (transformValueForEncrypt P v) = Inr v"
        using Cons.prems(1) [of k v] kv False by simp
      then show ?thesis
        using False ns fresh kv
        by (auto simp add: legacyProperty_def decryptStep_def setProp_fresh)
    qed
  qed
  then obtain k' v' where l: "legacyProperty P False kv = Some (k', v')"
    and d: "decryptStep P False (k', v') out = Inr (out @ [(k, v)])"
    by blast
  have "foldE (decryptStep P False) (List.map_filter (legacyProperty P False) rest)
          (out @ [(k, v)]) = Inr ((out @ [(k, v)]) @ rest)"
  proof (rule Cons.IH)
    show "fst ` set rest \<inter> fst ` set (out @ [(k, v)]) = {}"
      using Cons.prems(3,4) kv by auto
  qed (use Cons.prems kv in auto)
  then show ?case
    using l d kv by simp
qed


lemma styleDecryptStep_legacyExtra:
  assumes "modernExtra P v"
  shows "styleDecryptStep P (''extra'', legacyExtra P v) out = Inr (setProp ''extra'' v out)"
proof (cases v)
  case (JNumber x)
  show ?thesis
  proof (cases "isFinite P x")
    case True
    then have "float32Value P (float32Bits P x) = x"
      using assms JNumber by (simp add: modernExtra_def)
    then show ?thesis
      using True JNumber
      by (simp add: styleDecryptStep_def legacyExtra_def HEX8_RE_floatToHexLE
            hexToFloatLE_floatToHexLE)
  next
    case False
    then show ?thesis
      using JNumber by (simp add: styleDecryptStep_def legacyExtra_def)
  qed
next
  case (JString s)
  then have "\<not> HEX8_RE s" using assms by (simp add: modernExtra_def)
  then show ?thesis
    using JString by (simp add: styleDecryptStep_def legacyExtra_def)
next
  case JNull
  then show ?thesis by (simp add: styleDecryptStep_def legacyExtra_def)
next
  case (JBool b)
  then show ?thesis by (simp add: styleDecryptStep_def legacyExtra_def)
next
  case (JArray xs)
  then show ?thesis
    using assms by (simp add: styleDecryptStep_def legacyExtra_def modernExtra_def)
next
  case (JObject props)
  then show ?thesis
    using assms by (simp add: styleDecryptStep_def legacyExtra_def modernExtra_def)
qed

lemma decrypt_encrypt_style_props:
  assumes a1: "\<And>k v. (k, v) \<in> set rest \<Longrightarrow> k \<noteq> ''extra'' \<Longrightarrow>
        transformValueForDecrypt P (transformValueForEncrypt P v) = Inr v"
    and a2: "\<And>v. (''extra'', v) \<in> set rest \<Longrightarrow> modernExtra P v"
    and "distinct (map fst rest)"
    and "fst ` set rest \<inter> fst ` set out = {}"
    and "''__proto__'' \<notin> fst ` set rest"
  shows "foldE (styleDecryptStep P) (map (legacyStyleProperty P) rest) out = Inr (out @ rest)"
  using assms
proof (induction rest arbitrary: out)
  case Nil
  show ?case by simp
next
  case (Cons kv rest)
  obtain k v where kv: "kv = (k, v)" by (cases kv)
  have fresh: "k \<noteq> ''__proto__''" "k \<notin> fst ` set out"
    using Cons.prems(4,5) kv by auto
  have d: "styleDecryptStep P (legacyStyleProperty P kv) out = Inr (out @ [(k, v)])"
  proof (cases "k = ''extra''")
    case True
    have "modernExtra P v" using Cons.prems(2) [of v] kv True by simp
    from styleDecryptStep_legacyExtra [OF this, of out] show ?thesis
      using True fresh kv by (simp add: legacyStyleProperty_def setProp_fresh)
  next
    case False
    have "transformValueForDecrypt P (transformValueForEncrypt P v) = Inr v"
      using Cons.prems(1) [of k v] kv False by simp
    then show ?thesis
      using False fresh kv
      by (simp add: legacyStyleProperty_def styleDecryptStep_def setProp_fresh)
  qed
  have "foldE (styleDecryptStep P) (map (legacyStyleProperty P) rest) (out @ [(k, v)])
          = Inr ((out @ [(k, v)]) @ rest)"
  proof (rule Cons.IH)
    show "fst ` set rest \<inter> fst ` set (out @ [(k, v)]) = {}"
      using Cons.prems(3,4) kv by auto
  qed (use Cons.prems kv in auto)
  then show ?case
    using d kv by simp
qed

lemma decrypt_encrypt:
  "(modernForm P d \<longrightarrow> transformValueForDecrypt P (transformValueForEncrypt P d) = Inr d)
   \<and> (modernStyle P d \<longrightarrow> transformStyleForDecrypt P (transformStyleForEncrypt P d) = Inr d)"
proof (induction d rule: measure_induct_rule [where f = size])
  case (less d)
  have val: "transformValueForDecrypt P (transformValueForEncrypt P d) = Inr d"
    if m: "modernForm P d"
  proof (cases d)
    case (JArray xs)
    have "mapE (transformValueForDecrypt P) (map (transformValueForEncrypt P) xs) = Inr xs"
    proof (rule mapE_map_inverse)
      fix x assume "x \<in> set xs"
      then show "transformValueForDecrypt P (transformValueForEncrypt P x) = Inr x"
        using less [of x] size_item_less [of x xs] m JArray by (simp add: list_all_iff)
    qed
    then show ?thesis by (simp add: JArray)
  next
    case (JObject props)
    from m have dist: "distinct (map fst props)"
      and np: "''__proto__'' \<notin> fst ` set props"
      and npm: "''pitch_model'' \<notin> fst ` set props"
      and sub: "\<And>k v. (k, v) \<in> set props \<Longrightarrow>
            (if k = ''styles'' \<and> isArray v then list_all (modernStyle P) (arrayItems v)
             else modernForm P v)"
      by (auto simp: JObject hasOwnProperty_def list_all_iff)
    have hp: "hasOwnProperty props ''pitch_model'' = False"
      using npm by (simp add: hasOwnProperty_def)
    let ?enc = "List.map_filter (legacyProperty P False) props"
    have enc: "transformValueForEncrypt P (JObject props) = JObject ?enc"
      using transformValueForEncrypt_object_distinct [OF dist np, of P] by (simp add: hp)
    have "''sing_model'' \<notin> set (map fst ?enc)"
      unfolding legacyProperty_keys by auto
    then have hs: "hasOwnProperty ?enc ''sing_model'' = False"
      by (simp add: hasOwnProperty_def)
    have "foldE (decryptStep P False) ?enc [] = Inr ([] @ props)"
    proof (rule decrypt_encrypt_props)
      fix k v
      assume kv: "(k, v) \<in> set props" and "\<not> (k = ''styles'' \<and> isArray v)"
      then have "modernForm P v" using sub [OF kv] by simp
      then show "transformValueForDecrypt P (transformValueForEncrypt P v) = Inr v"
        using less [of v] size_prop_less [OF kv] JObject by simp
    next
      fix k v
      assume kv: "(k, v) \<in> set props" and st: "k = ''styles''" "isArray v"
      show "mapE (transformStyleForDecrypt P) (map (transformStyleForEncrypt P) (arrayItems v))
              = Inr (arrayItems v)"
      proof (rule mapE_map_inverse)
        fix e assume e: "e \<in> set (arrayItems v)"
        then have "modernStyle P e" using sub [OF kv] st by (simp add: list_all_iff)
        then show "transformStyleForDecrypt P (transformStyleForEncrypt P e) = Inr e"
          using less [of e] size_prop_item_less [OF kv e] JObject by simp
      qed
    qed (use dist np npm in auto)
    then show ?thesis
      by (simp add: JObject enc transformValueForDecrypt_object hs)
  qed simp_all
  have "transformStyleForDecrypt P (transformStyleForEncrypt P d) = Inr d"
    if m: "modernStyle P d"
  proof (cases d)
    case (JObject props)
    from m have dist: "distinct (map fst props)"
      and np: "''__proto__'' \<notin> fst ` set props"
      and sub: "\<And>k v. (k, v) \<in> set props \<Longrightarrow>
            (if k = ''extra'' then modernExtra P v else modernForm P v)"
      by (auto simp: JObject hasOwnProperty_def list_all_iff)
    have enc: "transformStyleForEncrypt P (JObject props)
                 = JObject (map (legacyStyleProperty P) props)"
      by (rule transformStyleForEncrypt_object_distinct [OF dist np])
    have "foldE (styleDecryptStep P) (map (legacyStyleProperty P) props) [] = Inr ([] @ props)"
    proof (rule decrypt_encrypt_style_props)
      fix k v
      assume kv: "(k, v) \<in> set props" and "k \<noteq> ''extra''"
      then have "modernForm P v" using sub [OF kv] by simp
      then show "transformValueForDecrypt P (transformValueForEncrypt P v) = Inr v"
        using less [of v] size_prop_less [OF kv] JObject by simp
    next
      fix v
      assume "(''extra'', v) \<in> set props"
      from sub [OF this] show "modernExtra P v" by simp
    qed (use dist np in auto)
    then show ?thesis
      by (simp add: JObject enc transformStyleForDecrypt_object)
  qed (use m val in simp_all)
  with val show ?case by simp
qed


definition modernKey :: "string \<Rightarrow> string" where
  "modernKey k = (if k = ''pitch_model'' then ''sing_model'' else k)"

lemma encrypt_decrypt_props:
  assumes b1: "\<And>k v. (k, v) \<in> set rest \<Longrightarrow> \<not> (k = ''styles'' \<and> isArray v) \<Longrightarrow>
        \<exists>m. transformValueForDecrypt P v = Inr m \<and> transformValueForEncrypt P m = v"
    and b2: "\<And>k v. (k, v) \<in> set rest \<Longrightarrow> k = ''styles'' \<Longrightarrow> isArray v \<Longrightarrow>
        \<exists>ms. mapE (transformStyleForDecrypt P) (arrayItems v) = Inr ms
           \<and> map (transformStyleForEncrypt P) ms = arrayItems v"
    and "distinct (map fst rest)"
    and "modernKey ` fst ` set rest \<inter> fst ` set out = {}"
    and "''sing_model'' \<notin> fst ` set rest"
    and "''__proto__'' \<notin> fst ` set rest"
  shows "\<exists>ms. foldE (decryptStep P False) rest out = Inr (out @ ms)
           \<and> map fst ms = map modernKey (map fst rest)
           \<and> List.map_filter (legacyProperty P False) ms = rest"
  using assms
proof (induction rest arbitrary: out)
  case Nil
  show ?case by simp
next
  case (Cons kv rest)
  obtain k v where kv: "kv = (k, v)" by (cases kv)
  have fresh: "k \<noteq> ''__proto__''" "modernKey k \<notin> fst ` set out" "k \<noteq> ''sing_model''"
    using Cons.prems(4,5,6) kv by auto
  have step: "\<exists>m. decryptStep P False (k, v) out = Inr (out @ [(modernKey k, m)])
                \<and> legacyProperty P False (modernKey k, m) = Some (k, v)"
  proof (cases "k = ''pitch_model''")
    case True
    obtain m where "transformValueForDecrypt P v = Inr m" "transformValueForEncrypt P m = v"
      using Cons.prems(1) [of k v] kv True by auto
    then show ?thesis
      using True fresh
      by (simp add: legacyProperty_def decryptStep_def setProp_fresh modernKey_def)
  next
    case np: False
    show ?thesis
    proof (cases "k = ''styles'' \<and> isArray v")
      case True
      obtain ms where "mapE (transformStyleForDecrypt P) (arrayItems v) = Inr ms"
        "map (transformStyleForEncrypt P) ms = arrayItems v"
        using Cons.prems(2) [of k v] kv True by auto
      then show ?thesis
        using True np fresh
        by (simp add: legacyProperty_def decryptStep_def setProp_fresh modernKey_def
              JArray_arrayItems)
    next
      case False
      obtain m where m: "transformValueForDecrypt P v = Inr m" "transformValueForEncrypt P m = v"
        using Cons.prems(1) [of k v] kv False by auto
      have "isArray m = isArray v"
        using isArray_transformValueForEncrypt [of P m] m(2) by simp
      then show ?thesis
        using False np fresh m
        by (auto simp add: legacyProperty_def decryptStep_def setProp_fresh modernKey_def)
    qed
  qed
  then obtain m where d: "decryptStep P False (k, v) out = Inr (out @ [(modernKey k, m)])"
    and l: "legacyProperty P False (modernKey k, m) = Some (k, v)"
    by blast
  have "\<exists>ms. foldE (decryptStep P False) rest (out @ [(modernKey k, m)])
            = Inr ((out @ [(modernKey k, m)]) @ ms)
           \<and> map fst ms = map modernKey (map fst rest)
           \<and> List.map_filter (legacyProperty P False) ms = rest"
  proof (rule Cons.IH)
    have ne: "modernKey k' \<noteq> modernKey k" if "k' \<in> fst ` set rest" for k'
    proof -
      have "k' \<noteq> k" using that Cons.prems(3) kv by auto
      moreover have "k' \<noteq> ''sing_model''" using that Cons.prems(5) by force
      ultimately show ?thesis using fresh(3) by (auto simp: modernKey_def)
    qed
    have "modernKey k \<notin> modernKey ` fst ` set rest"
    proof
      assume "modernKey k \<in> modernKey ` fst ` set rest"
      then obtain k' where "k' \<in> fst ` set rest" "modernKey k = modernKey k'"
        by (rule imageE)
      with ne [of k'] show False by simp
    qed
    moreover have "modernKey ` fst ` set rest \<inter> fst ` set out = {}"
    proof -
      have "modernKey ` fst ` set rest \<subseteq> modernKey ` fst ` set (kv # rest)"
        by (intro image_mono) auto
      with Cons.prems(4) show ?thesis by blast
    qed
    ultimately show "modernKey ` fst ` set rest \<inter> fst ` set (out @ [(modernKey k, m)]) = {}"
      by simp
  qed (use Cons.prems kv in auto)
  then obtain ms where
    "foldE (decryptStep P False) rest (out @ [(modernKey k, m)])
        = Inr ((out @ [(modernKey k, m)]) @ ms)"
    "map fst ms = map modernKey (map fst rest)"
    "List.map_filter (legacyProperty P False) ms = rest"
    by blast
  then have "foldE (decryptStep P False) (kv # rest) out = Inr (out @ ((modernKey k, m) # ms))
           \<and> map fst ((modernKey k, m) # ms) = map modernKey (map fst (kv # rest))
           \<and> List.map_filter (legacyProperty P False) ((modernKey k, m) # ms) = kv # rest"
    using d l kv by simp
  then show ?case by (rule exI)
qed

lemma styleDecryptStep_extra:
  assumes "legacyExtraOk P v"
  shows "\<exists>w. styleDecryptStep P (''extra'', v) out = Inr (setProp ''extra'' w out)
               \<and> legacyExtra P w = v"
proof (cases v)
  case (JNumber x)
  then have "styleDecryptStep P (''extra'', v) out = Inr (setProp ''extra'' v out)
               \<and> legacyExtra P v = v"
    using assms by (simp add: styleDecryptStep_def legacyExtra_def legacyExtraOk_def)
  then show ?thesis by (rule exI)
next
  case (JString s)
  show ?thesis
  proof (cases "HEX8_RE s")
    case True
    then obtain x where "hexToFloatLE P s = Inr x" "isFinite P x" "floatToHexLE P x = s"
      using assms JString by (auto simp: legacyExtraOk_def split: sum.splits)
    then have "styleDecryptStep P (''extra'', v) out = Inr (setProp ''extra'' (JNumber x) out)
               \<and> legacyExtra P (JNumber x) = v"
      using True JString by (simp add: styleDecryptStep_def legacyExtra_def)
    then show ?thesis by (rule exI)
  next
    case False
    then have "styleDecryptStep P (''extra'', v) out = Inr (setProp ''extra'' v out)
               \<and> legacyExtra P v = v"
      using JString by (simp add: styleDecryptStep_def legacyExtra_def)
    then show ?thesis by (rule exI)
  qed
next
  case JNull
  then have "styleDecryptStep P (''extra'', v) out = Inr (setProp ''extra'' v out)
               \<and> legacyExtra P v = v"
    by (simp add: styleDecryptStep_def legacyExtra_def)
  then show ?thesis by (rule exI)
next
  case (JBool b)
  then have "styleDecryptStep P (''extra'', v) out = Inr (setProp ''extra'' v out)
               \<and> legacyExtra P v = v"
    by (simp add: styleDecryptStep_def legacyExtra_def)
  then show ?thesis by (rule exI)
next
  case (JArray xs)
  then have "styleDecryptStep P (''extra'', v) out = Inr (setProp ''extra'' v out)
               \<and> legacyExtra P v = v"
    using assms by (simp add: styleDecryptStep_def legacyExtra_def legacyExtraOk_def)
  then show ?thesis by (rule exI)
next
  case (JObject props)
  then have "styleDecryptStep P (''extra'', v) out = Inr (setProp ''extra'' v out)
               \<and> legacyExtra P v = v"
    using assms by (simp add: styleDecryptStep_def legacyExtra_def legacyExtraOk_def)
  then show ?thesis by (rule exI)
qed

lemma encrypt_decrypt_style_props:
  assumes b1: "\<And>k v. (k, v) \<in> set rest \<Longrightarrow> k \<noteq> ''extra'' \<Longrightarrow>
        \<exists>m. transformValueForDecrypt P v = Inr m \<and> transformValueForEncrypt P m = v"
    and b2: "\<And>v. (''extra'', v) \<in> set rest \<Longrightarrow> legacyExtraOk P v"
    and "distinct (map fst rest)"
    and "fst ` set rest \<inter> fst ` set out = {}"
    and "''__proto__'' \<notin> fst ` set rest"
  shows "\<exists>ms. foldE (styleDecryptStep P) rest out = Inr (out @ ms)
           \<and> map fst ms = map fst rest
           \<and> map (legacyStyleProperty P) ms = rest"
  using assms
proof (induction rest arbitrary: out)
  case Nil
  show ?case by simp
next
  case (Cons kv rest)
  obtain k v where kv: "kv = (k, v)" by (cases kv)
  have fresh: "k \<noteq> ''__proto__''" "k \<notin> fst ` set out"
    using Cons.prems(4,5) kv by auto
  have step: "\<exists>m. styleDecryptStep P (k, v) out = Inr (out @ [(k, m)])
                \<and> legacyStyleProperty P (k, m) = (k, v)"
  proof (cases "k = ''extra''")
    case True
    have "legacyExtraOk P v" using Cons.prems(2) [of v] kv True by simp
    from styleDecryptStep_extra [OF this, of out] show ?thesis
      using True fresh by (auto simp add: legacyStyleProperty_def setProp_fresh)
  next
    case False
    obtain m where "transformValueForDecrypt P v = Inr m" "transformValueForEncrypt P m = v"
      using Cons.prems(1) [of k v] kv False by auto
    then show ?thesis
      using False fresh
      by (simp add: legacyStyleProperty_def styleDecryptStep_def setProp_fresh)
  qed
  then obtain m where d: "styleDecryptStep P (k, v) out = Inr (out @ [(k, m)])"
    and l: "legacyStyleProperty P (k, m) = (k, v)"
    by blast
  have "\<exists>ms. foldE (styleDecryptStep P) rest (out @ [(k, m)]) = Inr ((out @ [(k, m)]) @ ms)
           \<and> map fst ms = map fst rest
           \<and> map (legacyStyleProperty P) ms = rest"
  proof (rule Cons.IH)
    show "fst ` set rest \<inter> fst ` set (out @ [(k, m)]) = {}"
      using Cons.prems(3,4) kv by auto
  qed (use Cons.prems kv in auto)
  then obtain ms where
    "foldE (styleDecryptStep P) rest (out @ [(k, m)]) = Inr ((out @ [(k, m)]) @ ms)"
    "map fst ms = map fst rest"
    "map (legacyStyleProperty P) ms = rest"
    by blast
  then have "foldE (styleDecryptStep P) (kv # rest) out = Inr (out @ ((k, m) # ms))
           \<and> map fst ((k, m) # ms) = map fst (kv # rest)
           \<and> map (legacyStyleProperty P) ((k, m) # ms) = kv # rest"
    using d l kv by simp
  then show ?case by (rule exI)
qed


lemma modernKey_facts:
  "modernKey k \<noteq> ''pitch_model''"
  "k \<noteq> ''__proto__'' \<Longrightarrow> modernKey k \<noteq> ''__proto__''"
  "k \<noteq> ''sing_model'' \<Longrightarrow> k' \<noteq> ''sing_model'' \<Longrightarrow> modernKey k = modernKey k' \<Longrightarrow> k = k'"
  by (auto simp: modernKey_def split: if_splits)

lemma encrypt_decrypt:
  "(legacyForm P d \<longrightarrow>
      (\<exists>m. transformValueForDecrypt P d = Inr m \<and> transformValueForEncrypt P m = d))
   \<and> (legacyStyle P d \<longrightarrow>
      (\<exists>m. transformStyleForDecrypt P d = Inr m \<and> transformStyleForEncrypt P m = d))"
proof (induction d rule: measure_induct_rule [where f = size])
  case (less d)
  have val: "\<exists>m. transformValueForDecrypt P d = Inr m \<and> transformValueForEncrypt P m = d"
    if l: "legacyForm P d"
  proof (cases d)
    case (JArray xs)
    have "\<exists>ms. mapE (transformValueForDecrypt P) xs = Inr ms
            \<and> map (transformValueForEncrypt P) ms = xs"
    proof (rule mapE_inverse_map)
      fix x assume "x \<in> set xs"
      then show "\<exists>m. transformValueForDecrypt P x = Inr m \<and> transformValueForEncrypt P m = x"
        using less [of x] size_item_less [of x xs] l JArray by (simp add: list_all_iff)
    qed
    then obtain ms where "mapE (transformValueForDecrypt P) xs = Inr ms"
      "map (transformValueForEncrypt P) ms = xs"
      by blast
    then have "transformValueForDecrypt P d = Inr (JArray ms)
        \<and> transformValueForEncrypt P (JArray ms) = d"
      by (simp add: JArray)
    then show ?thesis by (rule exI)
  next
    case (JObject props)
    from l have dist: "distinct (map fst props)"
      and np: "''__proto__'' \<notin> fst ` set props"
      and nsm: "''sing_model'' \<notin> fst ` set props"
      and sub: "\<And>k v. (k, v) \<in> set props \<Longrightarrow>
            (if k = ''styles'' \<and> isArray v then list_all (legacyStyle P) (arrayItems v)
             else legacyForm P v)"
      by (auto simp: JObject hasOwnProperty_def list_all_iff)
    have hs: "hasOwnProperty props ''sing_model'' = False"
      using nsm by (simp add: hasOwnProperty_def)
    have "\<exists>ms. foldE (decryptStep P False) props [] = Inr ([] @ ms)
           \<and> map fst ms = map modernKey (map fst props)
           \<and> List.map_filter (legacyProperty P False) ms = props"
    proof (rule encrypt_decrypt_props)
      fix k v
      assume kv: "(k, v) \<in> set props" and "\<not> (k = ''styles'' \<and> isArray v)"
      then have "legacyForm P v" using sub [OF kv] by simp
      then show "\<exists>m. transformValueForDecrypt P v = Inr m \<and> transformValueForEncrypt P m = v"
        using less [of v] size_prop_less [OF kv] JObject by simp
    next
      fix k v
      assume kv: "(k, v) \<in> set props" and st: "k = ''styles''" "isArray v"
      show "\<exists>ms. mapE (transformStyleForDecrypt P) (arrayItems v) = Inr ms
              \<and> map (transformStyleForEncrypt P) ms = arrayItems v"
      proof (rule mapE_inverse_map)
        fix e assume e: "e \<in> set (arrayItems v)"
        then have "legacyStyle P e" using sub [OF kv] st by (simp add: list_all_iff)
        then show "\<exists>m. transformStyleForDecrypt P e = Inr m \<and> transformStyleForEncrypt P m = e"
          using less [of e] size_prop_item_less [OF kv e] JObject by simp
      qed
    qed (use dist np nsm in auto)
    then obtain ms where f: "foldE (decryptStep P False) props [] = Inr ms"
      and keys: "map fst ms = map modernKey (map fst props)"
      and inv: "List.map_filter (legacyProperty P False) ms = props"
      by auto
    have dec: "transformValueForDecrypt P (JObject props) = Inr (JObject ms)"
      by (simp add: transformValueForDecrypt_object hs f)
    have inj: "inj_on modernKey (set (map fst props))"
    proof (rule inj_onI)
      fix a a'
      assume "a \<in> set (map fst props)" "a' \<in> set (map fst props)"
        and e: "modernKey a = modernKey a'"
      moreover have "''sing_model'' \<notin> set (map fst props)"
        using nsm by simp
      ultimately have "a \<noteq> ''sing_model''" "a' \<noteq> ''sing_model''"
        by blast+
      then show "a = a'" using e by (rule modernKey_facts(3))
    qed
    have d': "distinct (map fst ms)"
      unfolding keys using conjI [OF dist inj] by (rule iffD2 [OF distinct_map])
    have "''__proto__'' \<notin> modernKey ` set (map fst props)"
    proof
      assume "''__proto__'' \<in> modernKey ` set (map fst props)"
      then obtain k where k: "k \<in> set (map fst props)" "''__proto__'' = modernKey k"
        by (rule imageE)
      have "k \<noteq> ''__proto__''" using k(1) np by (simp only: set_map) blast
      from modernKey_facts(2) [OF this] k(2) show False by simp
    qed
    then have "''__proto__'' \<notin> set (map fst ms)"
      unfolding keys by (simp add: image_image)
    then have np': "''__proto__'' \<notin> fst ` set ms" by simp
    have "''pitch_model'' \<notin> modernKey ` set (map fst props)"
    proof
      assume "''pitch_model'' \<in> modernKey ` set (map fst props)"
      then obtain k where "''pitch_model'' = modernKey k"
        by (rule imageE)
      with modernKey_facts(1) [of k] show False by simp
    qed
    then have "''pitch_model'' \<notin> set (map fst ms)"
      unfolding keys by (simp add: image_image)
    then have hp: "hasOwnProperty ms ''pitch_model'' = False"
      by (simp add: hasOwnProperty_def)
    have "transformValueForEncrypt P (JObject ms) = JObject props"
      using transformValueForEncrypt_object_distinct [OF d' np', of P] by (simp add: hp inv)
    with dec have "transformValueForDecrypt P d = Inr (JObject ms)
        \<and> transformValueForEncrypt P (JObject ms) = d"
      by (simp add: JObject)
    then show ?thesis by (rule exI)
  qed simp_all
  have "\<exists>m. transformStyleForDecrypt P d = Inr m \<and> transformStyleForEncrypt P m = d"
    if l: "legacyStyle P d"
  proof (cases "isPlainObject d")
    case False
    then have "legacyForm P d" using l by (cases d) simp_all
    from val [OF this] obtain m where m: "transformValueForDecrypt P d = Inr m"
      "transformValueForEncrypt P m = d"
      by blast
    have "\<not> isPlainObject m"
      using isPlainObject_transformValueForEncrypt [of P m] m(2) False by simp
    then have "transformStyleForDecrypt P d = Inr m \<and> transformStyleForEncrypt P m = d"
      using m False
      by (simp add: transformStyleForDecrypt_not_object transformStyleForEncrypt_not_object)
    then show ?thesis by (rule exI)
  next
    case True
    then obtain props where JObject: "d = JObject props" by (cases d) simp_all
    from l have dist: "distinct (map fst props)"
      and np: "''__proto__'' \<notin> fst ` set props"
      and sub: "\<And>k v. (k, v) \<in> set props \<Longrightarrow>
            (if k = ''extra'' then legacyExtraOk P v else legacyForm P v)"
      by (auto simp: JObject hasOwnProperty_def list_all_iff)
    have "\<exists>ms. foldE (styleDecryptStep P) props [] = Inr ([] @ ms)
           \<and> map fst ms = map fst props
           \<and> map (legacyStyleProperty P) ms = props"
    proof (rule encrypt_decrypt_style_props)
      fix k v
      assume kv: "(k, v) \<in> set props" and "k \<noteq> ''extra''"
      then have "legacyForm P v" using sub [OF kv] by simp
      then show "\<exists>m. transformValueForDecrypt P v = Inr m \<and> transformValueForEncrypt P m = v"
        using less [of v] size_prop_less [OF kv] JObject by simp
    next
      fix v
      assume "(''extra'', v) \<in> set props"
      from sub [OF this] show "legacyExtraOk P v" by simp
    qed (use dist np in auto)
    then obtain ms where f: "foldE (styleDecryptStep P) props [] = Inr ms"
      and keys: "map fst ms = map fst props"
      and inv: "map (legacyStyleProperty P) ms = props"
      by auto
    have dec: "transformStyleForDecrypt P (JObject props) = Inr (JObject ms)"
      by (simp add: transformStyleForDecrypt_object f)
    have d': "distinct (map fst ms)" using dist keys by simp
    have "''__proto__'' \<notin> set (map fst ms)" using np keys by simp
    then have np': "''__proto__'' \<notin> fst ` set ms" by simp
    have "transformStyleForEncrypt P (JObject ms) = JObject props"
      using transformStyleForEncrypt_object_distinct [OF d' np', of P] by (simp add: inv)
    with dec have "transformStyleForDecrypt P d = Inr (JObject ms)
        \<and> transformStyleForEncrypt P (JObject ms) = d"
      by (simp add: JObject)
    then show ?thesis by (rule exI)
  qed
  with val show ?case by simp
qed


text \<open>
  Claim C2 (as amended). Decrypting after encrypting gives back every document in
  modern form, and encrypting after decrypting gives back every document in legacy form;
  the decrypting transform does not fail on them.
\<close>

theorem migration_round_trip:
  "(modernForm P d \<longrightarrow>
      transformValueForDecrypt P (transformValueForEncrypt P d) = Inr d)
   \<and> (legacyForm P d \<longrightarrow>
      (\<exists>m. transformValueForDecrypt P d = Inr m \<and> transformValueForEncrypt P m = d))"
  using decrypt_encrypt [of P d] encrypt_decrypt [of P d] by simp

text \<open>The claim's own condition: some object holds both model keys.\<close>

function (sequential) hasBothModels :: "'n json \<Rightarrow> bool" where
  "hasBothModels (JArray entries) = list_ex hasBothModels entries"
| "hasBothModels (JObject props) =
     ((hasOwnProperty props ''sing_model'' \<and> hasOwnProperty props ''pitch_model'')
      \<or> list_ex (\<lambda>(key, v). hasBothModels v) props)"
| "hasBothModels v = False"
  by pat_completeness auto
termination
  by (relation "measure size") (auto dest: size_json_member size_json_prop)

lemma hexToFloatLE_half: "hexToFloatLE testPlatform ''0000003F'' = Inr 0x3F000000"
  by code_simp

lemma isFinite_half: "isFinite testPlatform 0x3F000000"
  by code_simp

text \<open>
  Claim C2 as stated fails. A document with \<^verbatim>\<open>pitch_model\<close> alone comes back from
  encrypting and decrypting with \<^verbatim>\<open>sing_model\<close> in its place, and a document with
  \<^verbatim>\<open>sing_model\<close> alone comes back from decrypting and encrypting with
  \<^verbatim>\<open>pitch_model\<close>; neither holds both keys, and neither has a style.
\<close>

theorem migration_round_trip_fails:
  "\<not> hasBothModels (JObject [(''pitch_model'', JString ''abc123'')] :: 32 word json)
   \<and> transformValueForDecrypt testPlatform
        (transformValueForEncrypt testPlatform (JObject [(''pitch_model'', JString ''abc123'')]))
       = Inr (JObject [(''sing_model'', JString ''abc123'')])
   \<and> \<not> hasBothModels (JObject [(''sing_model'', JString ''abc123'')] :: 32 word json)
   \<and> transformValueForDecrypt testPlatform (JObject [(''sing_model'', JString ''abc123'')])
       = Inr (JObject [(''sing_model'', JString ''abc123'')])
   \<and> transformValueForEncrypt testPlatform (JObject [(''sing_model'', JString ''abc123'')])
       = JObject [(''pitch_model'', JString ''abc123'')]
   \<and> transformValueForDecrypt testPlatform
        (transformValueForEncrypt testPlatform (JObject [(''pitch_model'', JString ''abc123'')]))
       \<noteq> Inr (JObject [(''pitch_model'', JString ''abc123'')])
   \<and> transformValueForEncrypt testPlatform (JObject [(''sing_model'', JString ''abc123'')])
       \<noteq> JObject [(''sing_model'', JString ''abc123'')]"
  by (simp add: hasOwnProperty_def transformValueForEncrypt_object
        transformValueForDecrypt_object encryptStep_def decryptStep_def setProp_def)

theorem migration_round_trip_witness:
  "modernForm testPlatform sampleModern
   \<and> transformValueForDecrypt testPlatform (transformValueForEncrypt testPlatform sampleModern)
       = Inr sampleModern
   \<and> legacyForm testPlatform sampleLegacy
   \<and> (\<exists>m. transformValueForDecrypt testPlatform sampleLegacy = Inr m
          \<and> transformValueForEncrypt testPlatform m = sampleLegacy)"
proof -
  have m: "modernForm testPlatform sampleModern"
    by (simp add: sampleModern_def hasOwnProperty_def modernExtra_def)
       (simp add: testPlatform_def)
  have l: "legacyForm testPlatform sampleLegacy"
    by (simp add: sampleLegacy_def hasOwnProperty_def legacyExtraOk_def hexToFloatLE_half
          isFinite_half floatToHexLE_half)
  from m l migration_round_trip [of testPlatform sampleModern]
    migration_round_trip [of testPlatform sampleLegacy]
  show ?thesis by simp
qed

section \<open>The validator (src/nofs/validate.ts)\<close>

datatype IssueSeverity = SeverityError | SeverityWarning

datatype pathElem = Key string | Index nat

record ValidationIssue =
  message :: string
  severity :: IssueSeverity
  path :: "pathElem list option"

record ValidationResult =
  errors :: "ValidationIssue list"
  warnings :: "ValidationIssue list"

definition ALLOWED_LANGUAGES :: "string list" where
  "ALLOWED_LANGUAGES = [''japanese'', ''english'', ''mandarin'', ''cantonese'', ''spanish'']"

definition PHONESET_BY_LANGUAGE :: "(string \<times> string) list" where
  "PHONESET_BY_LANGUAGE =
     [(''japanese'', ''romaji''), (''english'', ''arpabet''), (''mandarin'', ''xsampa''),
      (''cantonese'', ''xsampa''), (''spanish'', ''xsampa'')]"

definition ALLOWED_SING_MODEL :: "string list" where
  "ALLOWED_SING_MODEL =
     [''1a83aa71cb09e94bb8171a4f34d22cac'', ''2a73920b4208f2d5ba53bced8a528a14'',
      ''35222088c37134c7629d6873c0386d8d'', ''3f649ae6cb04ee4f7e9a7ed72ee29928'',
      ''4f4bf0c0ae33571c79e21b1c25993e15'', ''76d1e71c936b82714d0ead9628903355'',
      ''92e5ef5b10e68bef3c1fb03c880e6be2'', ''b0dbc93ad9636601a8a24425788a884e'']"

definition ALLOWED_BASE_MODEL :: "string list" where
  "ALLOWED_BASE_MODEL =
     [''0cc8e47f4cbc55274c8af9ddd3b99952'', ''2c233d8e9b19f1f4dc0276ba3a5542c1'',
      ''6e5da191faa421a20b529b40c3aa4968'', ''a0a5cc5b70b4e3a3fe5eb071ab70c614'',
      ''a174a445b871f7030c06cbe274c13389'', ''bcef8d939a3650f86de9c302b9f4056d'',
      ''ca6345d21bfd023c1b15203883a431a8'', ''dad774b887823741dac345c0d9915628'',
      ''e6e3e69c5e1adc6d11cf8fae282c2f6b'', ''e9d97f23d28c3fd45d7cb8a9671b234d'',
      ''ef3c4c606a7c4b0668fdd31f493081ee'', ''f98eefe8922c4a7adad07e4d152d039b'']"

definition ALLOWED_TIMING_MODEL :: "string list" where
  "ALLOWED_TIMING_MODEL =
     [''1537c807a892bb00136c22a8edce6b64'', ''23c6a5b548be9b9213b265d7f9f5c03b'',
      ''301264b6f8f7486759f0148d2b746dd2'', ''33d9aff20e1dc7f1e381cf4594a10429'',
      ''77aa9ba5b60e41fa11b9ad45f2862cb8'', ''7b0ea690ada94b4484b50d9d64a21cae'',
      ''7c291fdb51d0272da213c0fcb22f41f7'', ''9c539330eb7536195947ddf988515128'',
      ''a04629a795e8398ff0ab6baa9ffc04e0'', ''b6f4d2a1af8be8fb2b6c1d2ebdb0ce10'']"

definition ALLOWED_F0_MODEL :: "string list" where
  "ALLOWED_F0_MODEL =
     [''074caf0d79b926635bb8c1c36d2c0a36'', ''2c80cc20997ce222724d41faf44d0917'',
      ''4f6aff3f6430407dd436a88a29121777'', ''6316b70ba33c5e2446ec34100a678f98'',
      ''a4d108b4c61c9ca18f4f8cd297968a90'', ''a59fb01761a71d193e4afbd559bc4e6e'',
      ''a9db2025114e13e294bf89461d8515a7'', ''dcee89442f69984189a5b2aedbf9f090'',
      ''ef62a18bec034f62c75d7428757757bf'', ''f3a5378c141a1af88a311055fad488fb'']"

definition TOP_LEVEL_KEYS :: "string list" where
  "TOP_LEVEL_KEYS =
     [''name'', ''version'', ''vendor'', ''language'', ''phoneset'', ''support_languages'',
      ''base_model'', ''sing_model'', ''timing_model'', ''f0_model'', ''styles'', ''pitch'',
      ''timing'']"

definition STYLE_KEYS :: "string list" where
  "STYLE_KEYS = [''name'', ''data'', ''extra'']"

subsection \<open>The operations of the language on untyped values\<close>

text \<open>
  The validator receives a value of type \<^verbatim>\<open>unknown\<close>. A value is a JSON value or
  \<^verbatim>\<open>undefined\<close> (\<open>None\<close>), which is what reading a missing property gives. Reading a
  property of \<^verbatim>\<open>undefined\<close> or \<^verbatim>\<open>null\<close>, \<^verbatim>\<open>Object.keys\<close> of them, and calling
  a method the value does not have raise a \<^verbatim>\<open>TypeError\<close>. The properties the validator
  reads by name exist on no array, string, number or boolean and on no prototype.
\<close>

definition isString :: "'n json option \<Rightarrow> bool" where
  "isString v = (case v of Some (JString s) \<Rightarrow> True | _ \<Rightarrow> False)"

definition isArrayValue :: "'n json option \<Rightarrow> bool" where
  "isArrayValue v = (case v of Some (JArray xs) \<Rightarrow> True | _ \<Rightarrow> False)"

definition isObject :: "'n json option \<Rightarrow> bool" where
  "isObject v = (case v of Some (JObject props) \<Rightarrow> True | _ \<Rightarrow> False)"

text \<open>The string a value is, where the code has established that it is one.\<close>

definition stringValue :: "'n json option \<Rightarrow> string" where
  "stringValue v = (case v of Some (JString s) \<Rightarrow> s | _ \<Rightarrow> [])"

definition propOf :: "'n json option \<Rightarrow> string \<Rightarrow> error + 'n json option" where
  "propOf v key =
     (case v of
        None \<Rightarrow> Inl (TypeError ''Cannot read properties of undefined'')
      | Some JNull \<Rightarrow> Inl (TypeError ''Cannot read properties of null'')
      | Some (JObject props) \<Rightarrow> Inr (map_of props key)
      | Some _ \<Rightarrow> Inr None)"

fun showNat :: "nat \<Rightarrow> string" where
  "showNat n =
     (if n < 10 then [char_of (48 + n)] else showNat (n div 10) @ [char_of (48 + n mod 10)])"

declare showNat.simps [simp del]

definition objectKeysOf :: "'n json option \<Rightarrow> error + string list" where
  "objectKeysOf v =
     (case v of
        None \<Rightarrow> Inl (TypeError ''Cannot convert undefined or null to object'')
      | Some JNull \<Rightarrow> Inl (TypeError ''Cannot convert undefined or null to object'')
      | Some (JObject props) \<Rightarrow> Inr (map fst props)
      | Some (JArray xs) \<Rightarrow> Inr (map showNat [0..<length xs])
      | Some (JString s) \<Rightarrow> Inr (map showNat [0..<length s])
      | Some _ \<Rightarrow> Inr [])"

definition toLowerChar :: "char \<Rightarrow> char" where
  "toLowerChar c =
     (let n = (of_char c :: nat) in if 65 \<le> n \<and> n \<le> 90 then char_of (n + 32) else c)"

definition toLowerCase :: "string \<Rightarrow> string" where
  "toLowerCase s = map toLowerChar s"

definition toLowerCaseOf :: "'n json option \<Rightarrow> error + string" where
  "toLowerCaseOf v =
     (case v of
        Some (JString s) \<Rightarrow> Inr (toLowerCase s)
      | _ \<Rightarrow> Inl (TypeError ''toLowerCase is not a function''))"

definition includesString :: "string \<Rightarrow> string \<Rightarrow> bool" where
  "includesString s search =
     list_ex (\<lambda>i. take (length search) (drop i s) = search) [0..<Suc (length s)]"

definition includesOf :: "'n json option \<Rightarrow> string \<Rightarrow> error + bool" where
  "includesOf v search =
     (case v of
        Some (JString s) \<Rightarrow> Inr (includesString s search)
      | Some (JArray xs) \<Rightarrow> Inr (JString search \<in> set xs)
      | _ \<Rightarrow> Inl (TypeError ''includes is not a function''))"

definition elementsOf :: "'n json option \<Rightarrow> error + 'n json list" where
  "elementsOf v =
     (case v of
        Some (JArray xs) \<Rightarrow> Inr xs
      | _ \<Rightarrow> Inl (TypeError ''forEach is not a function''))"

definition push :: "'a list \<Rightarrow> 'a \<Rightarrow> 'a list" where
  "push xs x = xs @ [x]"

definition dq :: string where
  "dq = [CHR 0x22]"

fun join :: "string list \<Rightarrow> string \<Rightarrow> string" where
  "join [] sep = []"
| "join [x] sep = x"
| "join (x # xs) sep = x @ sep @ join xs sep"

subsection \<open>The rules\<close>

text \<open>
  The source's \<^verbatim>\<open>errors\<close>, \<^verbatim>\<open>warnings\<close> and \<^verbatim>\<open>path\<close> are \<open>errs\<close>, \<open>warns\<close>
  and \<open>pth\<close> here, the arrays the functions push to being passed in and returned.
\<close>

definition requireString ::
    "'n json option \<Rightarrow> string \<Rightarrow> ValidationIssue list \<Rightarrow> error + ValidationIssue list" where
  "requireString obj key errs =
     bindE (propOf obj key) (\<lambda>v.
       if \<not> isString v
       then Inr (push errs \<lparr>message = dq @ key @ dq @ '' must be a string.'',
                   severity = SeverityError, path = Some [Key key]\<rparr>)
       else Inr errs)"

definition isDigit :: "char \<Rightarrow> bool" where
  "isDigit c = (c \<in> set ''0123456789'')"

text \<open>
  The match of \<^verbatim>\<open>/^(\d+)(?:([ab])(\d+))?$/\<close>: its first group and, when the optional
  part is there, its third.
\<close>

definition versionMatch :: "string \<Rightarrow> (string \<times> string option) option" where
  "versionMatch s =
     (let main = takeWhile isDigit s; rest = dropWhile isDigit s in
      if main = [] then None
      else case rest of
        [] \<Rightarrow> Some (main, None)
      | c # branch \<Rightarrow>
          if (c = CHR ''a'' \<or> c = CHR ''b'') \<and> branch \<noteq> [] \<and> list_all isDigit branch
          then Some (main, Some branch) else None)"

definition decimalValue :: "string \<Rightarrow> nat" where
  "decimalValue ds = foldl (\<lambda>n c. 10 * n + (of_char c - 48)) 0 ds"

text \<open>
  \<^verbatim>\<open>Number.isInteger(Number.parseInt(ds, 10))\<close> for a string of digits: the integer is
  rounded to a binary64 number, which is an integer unless it is infinite.
\<close>

definition parsesToInteger :: "string \<Rightarrow> bool" where
  "parsesToInteger ds = (decimalValue ds < 2 ^ 1024 - 2 ^ 970)"

definition validateVersion :: "'n json option \<Rightarrow> ValidationIssue list \<Rightarrow> ValidationIssue list" where
  "validateVersion v errs =
     (if \<not> isString v
      then push errs \<lparr>message = dq @ ''version'' @ dq @ '' must be a string.'',
              severity = SeverityError, path = Some [Key ''version'']\<rparr>
      else case versionMatch (stringValue v) of
        None \<Rightarrow>
          push errs \<lparr>message = dq @ ''version'' @ dq @ '' must match <int>[a|b<int>].'',
            severity = SeverityError, path = Some [Key ''version'']\<rparr>
      | Some (main, branch) \<Rightarrow>
          if \<not> parsesToInteger main
             \<or> (case branch of None \<Rightarrow> False | Some b \<Rightarrow> \<not> parsesToInteger b)
          then push errs
                 \<lparr>message = dq @ ''version'' @ dq @ '' must contain non-negative integers.'',
                  severity = SeverityError, path = Some [Key ''version'']\<rparr>
          else errs)"

definition validateLanguage ::
    "'n json option \<Rightarrow> ValidationIssue list \<Rightarrow> pathElem list \<Rightarrow> error + ValidationIssue list" where
  "validateLanguage v errs pth =
     (if \<not> isString v
      then Inr (push errs \<lparr>message = dq @ ''language'' @ dq @ '' must be a string.'',
                  severity = SeverityError, path = Some pth\<rparr>)
      else bindE (toLowerCaseOf v) (\<lambda>normalized.
        if normalized \<notin> set ALLOWED_LANGUAGES
        then Inr (push errs
               \<lparr>message = dq @ ''language'' @ dq @ '' must be one of: ''
                    @ join ALLOWED_LANGUAGES '', '' @ ''.'',
                severity = SeverityError, path = Some pth\<rparr>)
        else Inr errs))"

definition validatePhoneset ::
    "'n json option \<Rightarrow> 'n json option \<Rightarrow> ValidationIssue list \<Rightarrow> error + ValidationIssue list" where
  "validatePhoneset language phoneset errs =
     (if \<not> isString language then Inr errs
      else bindE (toLowerCaseOf language) (\<lambda>normalizedLanguage.
        case map_of PHONESET_BY_LANGUAGE normalizedLanguage of
          None \<Rightarrow> Inr errs
        | Some expected \<Rightarrow>
            if expected = [] then Inr errs
            else if \<not> isString phoneset
            then Inr (push errs \<lparr>message = dq @ ''phoneset'' @ dq @ '' must be a string.'',
                        severity = SeverityError, path = Some [Key ''phoneset'']\<rparr>)
            else bindE (toLowerCaseOf phoneset) (\<lambda>lowered.
              if lowered \<noteq> expected
              then Inr (push errs
                     \<lparr>message = dq @ ''phoneset'' @ dq @ '' must be '' @ dq @ expected @ dq
                          @ '' when language is '' @ dq @ normalizedLanguage @ dq @ ''.'',
                      severity = SeverityError, path = Some [Key ''phoneset'']\<rparr>)
              else Inr errs)))"

definition validateSupportLanguage ::
    "pathElem list \<Rightarrow> 'n json \<Rightarrow> nat \<Rightarrow> ValidationIssue list \<Rightarrow> error + ValidationIssue list" where
  "validateSupportLanguage pth entry index errs =
     (if \<not> isString (Some entry)
      then Inr (push errs \<lparr>message = ''support_languages entries must be strings.'',
                  severity = SeverityError, path = Some (pth @ [Index index])\<rparr>)
      else bindE (toLowerCaseOf (Some entry)) (\<lambda>normalized.
        if normalized \<notin> set ALLOWED_LANGUAGES
        then Inr (push errs
               \<lparr>message = dq @ ''support_languages'' @ dq @ '' must be one of: ''
                    @ join ALLOWED_LANGUAGES '', '' @ ''.'',
                severity = SeverityError, path = Some (pth @ [Index index])\<rparr>)
        else Inr errs))"

text \<open>\<^verbatim>\<open>Array.prototype.forEach\<close> with a callback that may throw.\<close>

fun forEach :: "('a \<Rightarrow> nat \<Rightarrow> 's \<Rightarrow> error + 's) \<Rightarrow> 'a list \<Rightarrow> nat \<Rightarrow> 's \<Rightarrow> error + 's" where
  "forEach f [] index st = Inr st"
| "forEach f (x # xs) index st = bindE (f x index st) (forEach f xs (Suc index))"

definition validateSupportLanguages ::
    "'n json option \<Rightarrow> ValidationIssue list \<Rightarrow> pathElem list \<Rightarrow> error + ValidationIssue list" where
  "validateSupportLanguages v errs pth =
     (if \<not> isArrayValue v
      then Inr (push errs \<lparr>message = dq @ ''support_languages'' @ dq @ '' must be an array.'',
                  severity = SeverityError, path = Some pth\<rparr>)
      else bindE (elementsOf v) (\<lambda>entries.
        forEach (validateSupportLanguage pth) entries 0 errs))"

definition validateModelId ::
    "'n json option \<Rightarrow> string list \<Rightarrow> string \<Rightarrow> ValidationIssue list \<Rightarrow> ValidationIssue list" where
  "validateModelId v allowed key errs =
     (if \<not> isString v
      then push errs \<lparr>message = dq @ key @ dq @ '' must be a string.'',
              severity = SeverityError, path = Some [Key key]\<rparr>
      else if stringValue v \<notin> set allowed
      then push errs \<lparr>message = dq @ key @ dq @ '' must be one of the approved IDs.'',
              severity = SeverityError, path = Some [Key key]\<rparr>
      else errs)"

definition validateHex ::
    "'n json option \<Rightarrow> nat \<Rightarrow> ValidationIssue list \<Rightarrow> pathElem list
       \<Rightarrow> bool \<times> ValidationIssue list" where
  "validateHex v len errs pth =
     (if \<not> isString v
      then (False, push errs \<lparr>message = ''Hex value must be a string.'',
                     severity = SeverityError, path = Some pth\<rparr>)
      else if \<not> hexRE len (stringValue v)
      then (False, push errs
              \<lparr>message = ''Hex value must be exactly '' @ showNat len @ '' hex characters.'',
               severity = SeverityError, path = Some pth\<rparr>)
      else (True, errs))"

text \<open>
  The callback of \<^verbatim>\<open>validateStyles\<close>. Its state is the two arrays and the set
  \<^verbatim>\<open>seen\<close> of the names met so far.
\<close>

definition validateStyle ::
    "'n json \<Rightarrow> nat \<Rightarrow> ValidationIssue list \<times> ValidationIssue list \<times> string list
       \<Rightarrow> error + ValidationIssue list \<times> ValidationIssue list \<times> string list" where
  "validateStyle entry index st =
     (case st of (errs, warns, seen) \<Rightarrow>
      if \<not> isObject (Some entry)
      then Inr (push errs \<lparr>message = ''Each style entry must be an object.'',
                  severity = SeverityError, path = Some [Key ''styles'', Index index]\<rparr>,
                warns, seen)
      else
        let style = Some entry in
        bindE (objectKeysOf style) (\<lambda>keys.
          let warns1 = fold (\<lambda>key w.
                if key \<notin> set STYLE_KEYS
                then push w \<lparr>message = ''Unknown style key '' @ dq @ key @ dq @ ''.'',
                       severity = SeverityWarning,
                       path = Some [Key ''styles'', Index index, Key key]\<rparr>
                else w) keys warns
          in
          bindE (propOf style ''name'') (\<lambda>name.
          bindE
            (if \<not> isString name
             then Inr (push errs \<lparr>message = ''style.name must be a string.'',
                         severity = SeverityError,
                         path = Some [Key ''styles'', Index index, Key ''name'']\<rparr>, seen)
             else bindE (includesOf name '' '') (\<lambda>hasSpace.
               let errs1 =
                     (if hasSpace
                      then push errs \<lparr>message = ''style.name cannot contain spaces.'',
                             severity = SeverityError,
                             path = Some [Key ''styles'', Index index, Key ''name'']\<rparr>
                      else errs);
                   errs2 =
                     (if stringValue name \<in> set seen
                      then push errs1
                             \<lparr>message = ''Duplicate style name '' @ dq @ stringValue name
                                  @ dq @ ''.'',
                              severity = SeverityError,
                              path = Some [Key ''styles'', Index index, Key ''name'']\<rparr>
                      else errs1)
               in Inr (errs2, List.insert (stringValue name) seen)))
            (\<lambda>(errs3, seen1).
          bindE (propOf style ''data'') (\<lambda>data.
            Inr (snd (validateHex data 256 errs3 [Key ''styles'', Index index, Key ''data'']),
                 warns1, seen1))))))"

definition validateStyles ::
    "'n json option \<Rightarrow> ValidationIssue list \<Rightarrow> ValidationIssue list
       \<Rightarrow> error + ValidationIssue list \<times> ValidationIssue list" where
  "validateStyles v errs warns =
     (if \<not> isArrayValue v
      then Inr (push errs \<lparr>message = dq @ ''styles'' @ dq @ '' must be an array.'',
                  severity = SeverityError, path = Some [Key ''styles'']\<rparr>, warns)
      else bindE (elementsOf v) (\<lambda>entries.
        bindE (forEach validateStyle entries 0 (errs, warns, []))
          (\<lambda>(errs1, warns1, seen). Inr (errs1, warns1))))"

definition validateRequiredHex ::
    "'n json option \<Rightarrow> string \<Rightarrow> nat \<Rightarrow> ValidationIssue list \<Rightarrow> ValidationIssue list" where
  "validateRequiredHex v key len errs =
     (if v = None
      then push errs \<lparr>message = dq @ key @ dq @ '' is required.'',
              severity = SeverityError, path = Some [Key key]\<rparr>
      else snd (validateHex v len errs [Key key]))"

definition validateNofsData :: "'n json \<Rightarrow> error + ValidationResult" where
  "validateNofsData data =
     (if \<not> isObject (Some data)
      then Inr \<lparr>errors = push [] \<lparr>message = ''Root value must be an object.'',
                   severity = SeverityError, path = None\<rparr>,
                warnings = []\<rparr>
      else
        let obj = Some data in
        bindE (objectKeysOf obj) (\<lambda>keys.
        let warns = fold (\<lambda>key w.
              if key \<notin> set TOP_LEVEL_KEYS
              then push w \<lparr>message = ''Unknown key '' @ dq @ key @ dq @ ''.'',
                     severity = SeverityWarning, path = Some [Key key]\<rparr>
              else w) keys []
        in
        bindE (requireString obj ''name'' []) (\<lambda>errs1.
        bindE (requireString obj ''vendor'' errs1) (\<lambda>errs2.
        bindE (requireString obj ''phoneset'' errs2) (\<lambda>errs3.
        bindE (propOf obj ''version'') (\<lambda>version.
        bindE (propOf obj ''language'') (\<lambda>language.
        bindE (validateLanguage language (validateVersion version errs3) [Key ''language''])
          (\<lambda>errs5.
        bindE (propOf obj ''support_languages'') (\<lambda>support_languages.
        bindE (validateSupportLanguages support_languages errs5 [Key ''support_languages''])
          (\<lambda>errs6.
        bindE (propOf obj ''phoneset'') (\<lambda>phoneset.
        bindE (validatePhoneset language phoneset errs6) (\<lambda>errs7.
        bindE (propOf obj ''sing_model'') (\<lambda>sing_model.
        bindE (propOf obj ''base_model'') (\<lambda>base_model.
        bindE (propOf obj ''timing_model'') (\<lambda>timing_model.
        bindE (propOf obj ''f0_model'') (\<lambda>f0_model.
        bindE (propOf obj ''styles'') (\<lambda>styles.
        bindE (validateStyles styles
                 (validateModelId f0_model ALLOWED_F0_MODEL ''f0_model''
                   (validateModelId timing_model ALLOWED_TIMING_MODEL ''timing_model''
                     (validateModelId base_model ALLOWED_BASE_MODEL ''base_model''
                       (validateModelId sing_model ALLOWED_SING_MODEL ''sing_model'' errs7))))
                 warns) (\<lambda>(errs12, warns1).
        bindE (propOf obj ''pitch'') (\<lambda>pitch.
        bindE (propOf obj ''timing'') (\<lambda>timing.
          Inr \<lparr>errors = validateRequiredHex timing ''timing'' 1024
                          (validateRequiredHex pitch ''pitch'' 256 errs12),
               warnings = warns1\<rparr>))))))))))))))))))))"

subsection \<open>The validator never throws\<close>

lemma bindE_total:
  "\<exists>x. m = Inr x \<Longrightarrow> (\<And>x. \<exists>y. f x = Inr y) \<Longrightarrow> \<exists>y. bindE m f = Inr y"
  by auto

lemma propOf_object: "isObject v \<Longrightarrow> \<exists>r. propOf v key = Inr r"
  by (auto simp: isObject_def propOf_def split: option.splits json.splits)

lemma objectKeysOf_object: "isObject v \<Longrightarrow> \<exists>r. objectKeysOf v = Inr r"
  by (auto simp: isObject_def objectKeysOf_def split: option.splits json.splits)

lemma toLowerCaseOf_string: "isString v \<Longrightarrow> \<exists>r. toLowerCaseOf v = Inr r"
  by (auto simp: isString_def toLowerCaseOf_def split: option.splits json.splits)

lemma includesOf_string: "isString v \<Longrightarrow> \<exists>r. includesOf v search = Inr r"
  by (auto simp: isString_def includesOf_def split: option.splits json.splits)

lemma elementsOf_array: "isArrayValue v \<Longrightarrow> \<exists>r. elementsOf v = Inr r"
  by (auto simp: isArrayValue_def elementsOf_def split: option.splits json.splits)

lemma forEach_total:
  "(\<And>x i st. x \<in> set xs \<Longrightarrow> \<exists>st'. f x i st = Inr st') \<Longrightarrow> \<exists>r. forEach f xs index st = Inr r"
proof (induction xs arbitrary: index st)
  case Nil
  show ?case by simp
next
  case (Cons x xs)
  from Cons.prems obtain st' where "f x index st = Inr st'" by (meson list.set_intros(1))
  moreover from Cons obtain r where "forEach f xs (Suc index) st' = Inr r"
    by (meson list.set_intros(2))
  ultimately show ?case by simp
qed

lemma requireString_total: "isObject obj \<Longrightarrow> \<exists>r. requireString obj key errs = Inr r"
  unfolding requireString_def
  by (rule bindE_total) (auto intro: propOf_object)

lemma validateLanguage_total: "\<exists>r. validateLanguage v errs pth = Inr r"
proof (cases "isString v")
  case True
  then obtain s where "toLowerCaseOf v = Inr s" using toLowerCaseOf_string by blast
  with True show ?thesis by (simp add: validateLanguage_def)
next
  case False
  then show ?thesis by (simp add: validateLanguage_def)
qed

lemma validatePhoneset_total: "\<exists>r. validatePhoneset language phoneset errs = Inr r"
proof (cases "isString language")
  case False
  then show ?thesis by (simp add: validatePhoneset_def)
next
  case True
  then obtain l where l: "toLowerCaseOf language = Inr l" using toLowerCaseOf_string by blast
  show ?thesis
  proof (cases "isString phoneset")
    case False
    with True l show ?thesis by (simp add: validatePhoneset_def split: option.split)
  next
    case p: True
    then obtain s where "toLowerCaseOf phoneset = Inr s" using toLowerCaseOf_string by blast
    with True l p show ?thesis by (simp add: validatePhoneset_def split: option.split)
  qed
qed

lemma validateSupportLanguage_total: "\<exists>r. validateSupportLanguage pth entry index errs = Inr r"
proof (cases "isString (Some entry)")
  case True
  then obtain s where "toLowerCaseOf (Some entry) = Inr s" using toLowerCaseOf_string by blast
  with True show ?thesis by (simp add: validateSupportLanguage_def)
next
  case False
  then show ?thesis by (simp add: validateSupportLanguage_def)
qed

lemma validateSupportLanguages_total: "\<exists>r. validateSupportLanguages v errs pth = Inr r"
proof (cases "isArrayValue v")
  case True
  then obtain xs where xs: "elementsOf v = Inr xs" using elementsOf_array by blast
  obtain r where "forEach (validateSupportLanguage pth) xs 0 errs = Inr r"
    using forEach_total [of xs "validateSupportLanguage pth" 0 errs]
      validateSupportLanguage_total by blast
  with True xs show ?thesis by (simp add: validateSupportLanguages_def)
next
  case False
  then show ?thesis by (simp add: validateSupportLanguages_def)
qed

lemma validateStyle_total: "\<exists>r. validateStyle entry index st = Inr r"
proof -
  obtain errs warns seen where st: "st = (errs, warns, seen)" by (cases st)
  show ?thesis
  proof (cases "isObject (Some entry)")
    case False
    then show ?thesis by (simp add: validateStyle_def st)
  next
    case True
    obtain keys where k: "objectKeysOf (Some entry) = Inr keys"
      using objectKeysOf_object [OF True] by blast
    obtain name where n: "propOf (Some entry) ''name'' = Inr name"
      using propOf_object [OF True] by blast
    obtain data where d: "propOf (Some entry) ''data'' = Inr data"
      using propOf_object [OF True] by blast
    show ?thesis
    proof (cases "isString name")
      case False
      with True k n d show ?thesis by (simp add: validateStyle_def st Let_def)
    next
      case s: True
      then obtain b where "includesOf name '' '' = Inr b" using includesOf_string by blast
      with True s k n d show ?thesis by (simp add: validateStyle_def st Let_def)
    qed
  qed
qed

lemma validateStyles_total: "\<exists>r. validateStyles v errs warns = Inr r"
proof (cases "isArrayValue v")
  case True
  then obtain xs where xs: "elementsOf v = Inr xs" using elementsOf_array by blast
  obtain r where "forEach validateStyle xs 0 (errs, warns, []) = Inr r"
    using forEach_total [of xs validateStyle 0 "(errs, warns, [])"] validateStyle_total
    by blast
  with True xs show ?thesis by (cases r) (simp add: validateStyles_def)
next
  case False
  then show ?thesis by (simp add: validateStyles_def)
qed

lemma validateNofsData_total_aux: "\<exists>r. validateNofsData data = Inr r"
proof (cases "isObject (Some data)")
  case False
  then show ?thesis by (simp add: validateNofsData_def)
next
  case True
  note po = propOf_object [OF True]
  show ?thesis
    unfolding validateNofsData_def Let_def
    using True
    by (auto intro!: bindE_total po objectKeysOf_object requireString_total
          validateLanguage_total validateSupportLanguages_total validatePhoneset_total
          validateStyles_total)
qed


subsection \<open>The names of the styles\<close>

text \<open>
  The name of a style entry (an object whose \<^verbatim>\<open>name\<close> is a string), the two issues
  the validator raises about it, and the issues whose path starts with
  \<^verbatim>\<open>["styles", index]\<close>.
\<close>

definition styleName :: "'n json \<Rightarrow> string option" where
  "styleName entry =
     (case entry of
        JObject props \<Rightarrow> (case map_of props ''name'' of Some (JString n) \<Rightarrow> Some n | _ \<Rightarrow> None)
      | _ \<Rightarrow> None)"

definition spacesIssue :: "nat \<Rightarrow> ValidationIssue" where
  "spacesIssue index =
     \<lparr>message = ''style.name cannot contain spaces.'', severity = SeverityError,
      path = Some [Key ''styles'', Index index, Key ''name'']\<rparr>"

definition duplicateIssue :: "nat \<Rightarrow> string \<Rightarrow> ValidationIssue" where
  "duplicateIssue index n =
     \<lparr>message = ''Duplicate style name '' @ dq @ n @ dq @ ''.'', severity = SeverityError,
      path = Some [Key ''styles'', Index index, Key ''name'']\<rparr>"

definition styleSeen :: "'n json \<Rightarrow> string list \<Rightarrow> string list" where
  "styleSeen entry seen = (case styleName entry of Some n \<Rightarrow> List.insert n seen | None \<Rightarrow> seen)"

definition atStyle :: "nat \<Rightarrow> ValidationIssue \<Rightarrow> bool" where
  "atStyle index x = (\<exists>rest. path x = Some (Key ''styles'' # Index index # rest))"

lemma includesString_single: "includesString s [c] = (c \<in> set s)"
proof -
  have d1: "c \<in> set s" if "take (Suc 0) (drop i s) = [c]" for i
  proof -
    from that have "c \<in> set (take (Suc 0) (drop i s))" by simp
    then show ?thesis by (meson in_set_dropD in_set_takeD)
  qed
  have d2: "\<exists>i < length s. take (Suc 0) (drop i s) = [c]" if "c \<in> set s"
  proof -
    from that obtain i where i: "i < length s" "s ! i = c" by (auto simp: in_set_conv_nth)
    then have "drop i s = c # drop (Suc i) s" using Cons_nth_drop_Suc [of i s] by simp
    then have "take (Suc 0) (drop i s) = [c]" by simp
    with i show ?thesis by blast
  qed
  show ?thesis
    unfolding includesString_def list_ex_iff
  proof
    assume "\<exists>i \<in> set [0..<Suc (length s)]. take (length [c]) (drop i s) = [c]"
    then show "c \<in> set s" using d1 by auto
  next
    assume "c \<in> set s"
    from d2 [OF this] obtain i where "i < length s" "take (Suc 0) (drop i s) = [c]" by blast
    then show "\<exists>i \<in> set [0..<Suc (length s)]. take (length [c]) (drop i s) = [c]"
      by (intro bexI [of _ i]) simp_all
  qed
qed

text \<open>The issues each step adds, as lists, and the issues of the whole loop.\<close>

definition hexIssues :: "'n json option \<Rightarrow> nat \<Rightarrow> pathElem list \<Rightarrow> ValidationIssue list" where
  "hexIssues v len pth =
     (if \<not> isString v
      then [\<lparr>message = ''Hex value must be a string.'', severity = SeverityError,
              path = Some pth\<rparr>]
      else if \<not> hexRE len (stringValue v)
      then [\<lparr>message = ''Hex value must be exactly '' @ showNat len @ '' hex characters.'',
              severity = SeverityError, path = Some pth\<rparr>]
      else [])"

definition nameIssues :: "'n json option \<Rightarrow> nat \<Rightarrow> string list \<Rightarrow> ValidationIssue list" where
  "nameIssues name index seen =
     (if \<not> isString name
      then [\<lparr>message = ''style.name must be a string.'', severity = SeverityError,
              path = Some [Key ''styles'', Index index, Key ''name'']\<rparr>]
      else (if CHR '' '' \<in> set (stringValue name) then [spacesIssue index] else [])
         @ (if stringValue name \<in> set seen then [duplicateIssue index (stringValue name)]
            else []))"

definition styleIssues :: "'n json \<Rightarrow> nat \<Rightarrow> string list \<Rightarrow> ValidationIssue list" where
  "styleIssues entry index seen =
     (case entry of
        JObject props \<Rightarrow>
          nameIssues (map_of props ''name'') index seen
            @ hexIssues (map_of props ''data'') 256 [Key ''styles'', Index index, Key ''data'']
      | _ \<Rightarrow> [\<lparr>message = ''Each style entry must be an object.'', severity = SeverityError,
                path = Some [Key ''styles'', Index index]\<rparr>])"

fun stylesIssues :: "'n json list \<Rightarrow> nat \<Rightarrow> string list \<Rightarrow> ValidationIssue list" where
  "stylesIssues [] index seen = []"
| "stylesIssues (entry # entries) index seen =
     styleIssues entry index seen @ stylesIssues entries (Suc index) (styleSeen entry seen)"

lemma validateHex_snd: "snd (validateHex v len errs pth) = errs @ hexIssues v len pth"
  by (simp add: validateHex_def hexIssues_def push_def)

lemma validateStyle_not_object:
  "\<not> isObject (Some entry) \<Longrightarrow>
     validateStyle entry index (errs, warns, seen)
       = Inr (errs @ styleIssues entry index seen, warns, styleSeen entry seen)"
  by (cases entry)
     (simp_all add: validateStyle_def isObject_def styleIssues_def styleSeen_def styleName_def
        push_def)

lemma validateStyle_object_no_name:
  assumes "\<not> isString (map_of props ''name'')"
  shows "\<exists>warns1. validateStyle (JObject props) index (errs, warns, seen)
       = Inr (errs @ styleIssues (JObject props) index seen, warns1,
              styleSeen (JObject props) seen)"
proof -
  have "styleName (JObject props) = None"
    using assms by (auto simp: styleName_def isString_def split: option.splits json.splits)
  then show ?thesis
    using assms
    by (simp add: validateStyle_def isObject_def objectKeysOf_def propOf_def Let_def
          validateHex_snd styleIssues_def nameIssues_def styleSeen_def push_def)
qed

lemma validateStyle_object_name:
  assumes "map_of props ''name'' = Some (JString n)"
  shows "\<exists>warns1. validateStyle (JObject props) index (errs, warns, seen)
       = Inr (errs @ styleIssues (JObject props) index seen, warns1,
              styleSeen (JObject props) seen)"
proof -
  have sn: "styleName (JObject props) = Some n"
    using assms by (simp add: styleName_def)
  have i: "isString (Some (JString n))" "stringValue (Some (JString n)) = n"
    "includesOf (Some (JString n)) '' '' = Inr (CHR '' '' \<in> set n)"
    by (simp_all add: isString_def stringValue_def includesOf_def includesString_single)
  show ?thesis
    by (simp add: validateStyle_def isObject_def objectKeysOf_def propOf_def Let_def
          validateHex_snd styleIssues_def nameIssues_def styleSeen_def push_def assms sn i
          spacesIssue_def duplicateIssue_def cong: if_cong)
qed

lemma validateStyle_eq:
  "\<exists>warns1. validateStyle entry index (errs, warns, seen)
       = Inr (errs @ styleIssues entry index seen, warns1, styleSeen entry seen)"
proof (cases entry)
  case (JObject props)
  show ?thesis
  proof (cases "isString (map_of props ''name'')")
    case True
    then obtain n where "map_of props ''name'' = Some (JString n)"
      by (auto simp: isString_def split: option.splits json.splits)
    from validateStyle_object_name [OF this] show ?thesis by (simp add: JObject)
  next
    case False
    from validateStyle_object_no_name [OF this] show ?thesis by (simp add: JObject)
  qed
qed (simp_all add: validateStyle_not_object isObject_def)

lemma forEach_validateStyle:
  "\<exists>warns1 seen1. forEach validateStyle entries index (errs, warns, seen)
       = Inr (errs @ stylesIssues entries index seen, warns1, seen1)"
proof (induction entries arbitrary: index errs warns seen)
  case Nil
  show ?case by simp
next
  case (Cons entry entries)
  obtain warns1 where
    "validateStyle entry index (errs, warns, seen)
       = Inr (errs @ styleIssues entry index seen, warns1, styleSeen entry seen)"
    using validateStyle_eq by blast
  moreover obtain warns2 seen2 where
    "forEach validateStyle entries (Suc index)
       (errs @ styleIssues entry index seen, warns1, styleSeen entry seen)
       = Inr ((errs @ styleIssues entry index seen)
                @ stylesIssues entries (Suc index) (styleSeen entry seen), warns2, seen2)"
    using Cons.IH by blast
  ultimately show ?case by simp
qed


lemma atStyle_issues [simp]:
  "atStyle j (spacesIssue i) = (i = j)"
  "atStyle j (duplicateIssue i m) = (i = j)"
  by (auto simp: atStyle_def spacesIssue_def duplicateIssue_def)

lemma hexIssues_atStyle:
  "x \<in> set (hexIssues v len (Key ''styles'' # Index index # rest)) \<Longrightarrow> atStyle index x"
  by (auto simp: hexIssues_def atStyle_def split: if_splits)

lemma hexIssues_not_name [simp]:
  "spacesIssue i \<notin> set (hexIssues v len pth)"
  "duplicateIssue i m \<notin> set (hexIssues v len pth)"
  by (auto simp: hexIssues_def spacesIssue_def duplicateIssue_def split: if_splits)

lemma nameIssues_atStyle: "x \<in> set (nameIssues name index seen) \<Longrightarrow> atStyle index x"
  by (auto simp: nameIssues_def atStyle_def spacesIssue_def duplicateIssue_def
      split: if_splits)

lemma spacesIssue_neq_duplicateIssue [simp]: "spacesIssue i \<noteq> duplicateIssue j m"
  by (simp add: spacesIssue_def duplicateIssue_def)

lemma duplicateIssue_eq [simp]: "(duplicateIssue i m = duplicateIssue j n) = (i = j \<and> m = n)"
  by (auto simp: duplicateIssue_def)

lemma nameIssues_string:
  "(spacesIssue index \<in> set (nameIssues (Some (JString n)) index seen)) = (CHR '' '' \<in> set n)"
  "(duplicateIssue index n \<in> set (nameIssues (Some (JString n)) index seen)) = (n \<in> set seen)"
  using spacesIssue_neq_duplicateIssue [of index index n]
    spacesIssue_neq_duplicateIssue [of index index n, THEN not_sym]
  by (auto simp: nameIssues_def isString_def stringValue_def)

lemma styleIssues_atStyle: "x \<in> set (styleIssues entry index seen) \<Longrightarrow> atStyle index x"
  by (cases entry)
     (auto simp: styleIssues_def atStyle_def dest: nameIssues_atStyle hexIssues_atStyle)

lemma styleName_Some:
  "styleName entry = Some n \<Longrightarrow> \<exists>props. entry = JObject props \<and> map_of props ''name'' = Some (JString n)"
  by (auto simp: styleName_def split: json.splits option.splits)

lemma styleIssues_name:
  assumes "styleName entry = Some n"
  shows "(spacesIssue index \<in> set (styleIssues entry index seen)) = (CHR '' '' \<in> set n)"
    and "(duplicateIssue index n \<in> set (styleIssues entry index seen)) = (n \<in> set seen)"
proof -
  from styleName_Some [OF assms] obtain props where
    e: "entry = JObject props" "map_of props ''name'' = Some (JString n)"
    by blast
  show "(spacesIssue index \<in> set (styleIssues entry index seen)) = (CHR '' '' \<in> set n)"
    by (simp add: e styleIssues_def nameIssues_string)
  show "(duplicateIssue index n \<in> set (styleIssues entry index seen)) = (n \<in> set seen)"
    by (simp add: e styleIssues_def nameIssues_string)
qed

lemma stylesIssues_atStyle:
  "x \<in> set (stylesIssues entries index seen) \<Longrightarrow>
     \<exists>j. index \<le> j \<and> j < index + length entries \<and> atStyle j x"
proof (induction entries arbitrary: index seen)
  case Nil
  then show ?case by simp
next
  case (Cons entry entries)
  from Cons.prems consider "x \<in> set (styleIssues entry index seen)"
    | "x \<in> set (stylesIssues entries (Suc index) (styleSeen entry seen))"
    by auto
  then show ?case
  proof cases
    case 1
    then have "atStyle index x" by (rule styleIssues_atStyle)
    then show ?thesis by (intro exI [of _ index]) simp
  next
    case 2
    from Cons.IH [OF this] obtain j where "Suc index \<le> j" "j < Suc index + length entries"
      "atStyle j x" by blast
    then show ?thesis by (intro exI [of _ j]) simp
  qed
qed

lemma set_styleSeen:
  "set (styleSeen entry seen) = set seen \<union> (case styleName entry of Some n \<Rightarrow> {n} | None \<Rightarrow> {})"
  by (auto simp: styleSeen_def split: option.splits)

lemma stylesIssues_names:
  assumes "k < length entries" and "styleName (entries ! k) = Some n"
  shows "(spacesIssue (index + k) \<in> set (stylesIssues entries index seen)) = (CHR '' '' \<in> set n)"
    and "(duplicateIssue (index + k) n \<in> set (stylesIssues entries index seen))
           = (n \<in> set seen \<or> (\<exists>j<k. styleName (entries ! j) = Some n))"
  using assms
proof (induction entries arbitrary: index seen k)
  case Nil
  {
    case 1 then show ?case by simp
  next
    case 2 then show ?case by simp
  }
next
  case (Cons entry entries)
  have later: "y \<notin> set (stylesIssues entries (Suc index) (styleSeen entry seen))"
    if "atStyle index y" for y index seen
  proof
    assume "y \<in> set (stylesIssues entries (Suc index) (styleSeen entry seen))"
    from stylesIssues_atStyle [OF this] obtain j where "Suc index \<le> j" "atStyle j y" by blast
    with that show False by (auto simp: atStyle_def)
  qed
  have first: "y \<notin> set (styleIssues entry index seen)" if "atStyle j y" "j \<noteq> index"
    for y j index seen
    using styleIssues_atStyle [of y entry index seen] that by (auto simp: atStyle_def)
  {
    case 1
    show ?case
    proof (cases k)
      case 0
      with "1.prems" have sn: "styleName entry = Some n" by simp
      have "atStyle index (spacesIssue index)" by simp
      from later [OF this] show ?thesis
        using styleIssues_name(1) [OF sn, of index seen] by (simp add: 0)
    next
      case (Suc k')
      with "1.prems" have p: "k' < length entries" "styleName (entries ! k') = Some n" by simp_all
      have "spacesIssue (Suc index + k') \<notin> set (styleIssues entry index seen)"
        by (rule first [of "Suc index + k'"]) simp_all
      then show ?thesis
        using Cons.IH(1) [OF p, of "Suc index" "styleSeen entry seen"] by (simp add: Suc)
    qed
  next
    case 2
    show ?case
    proof (cases k)
      case 0
      with "2.prems" have sn: "styleName entry = Some n" by simp
      have "atStyle index (duplicateIssue index n)" by simp
      from later [OF this] show ?thesis
        using styleIssues_name(2) [OF sn, of index seen] by (simp add: 0)
    next
      case (Suc k')
      with "2.prems" have p: "k' < length entries" "styleName (entries ! k') = Some n" by simp_all
      have "duplicateIssue (Suc index + k') n \<notin> set (styleIssues entry index seen)"
        by (rule first [of "Suc index + k'"]) simp_all
      moreover have "(n \<in> set (styleSeen entry seen) \<or> (\<exists>j<k'. styleName (entries ! j) = Some n))
          = (n \<in> set seen \<or> (\<exists>j<Suc k'. styleName ((entry # entries) ! j) = Some n))"
      proof -
        have "(\<exists>j<Suc k'. styleName ((entry # entries) ! j) = Some n)
            = (styleName entry = Some n \<or> (\<exists>j<k'. styleName (entries ! j) = Some n))"
          by (auto simp: less_Suc_eq_0_disj)
        then show ?thesis
          by (auto simp: set_styleSeen split: option.splits)
      qed
      ultimately show ?thesis
        using Cons.IH(2) [OF p, of "Suc index" "styleSeen entry seen"] by (simp add: Suc)
    qed
  }
qed


text \<open>The other rules raise no issue under \<^verbatim>\<open>styles\<close>.\<close>

definition offStyles :: "ValidationIssue list \<Rightarrow> bool" where
  "offStyles added = (\<forall>x \<in> set added. \<forall>j. \<not> atStyle j x)"

lemma offStyles_simps [simp]:
  "offStyles []"
  "offStyles (xs @ ys) = (offStyles xs \<and> offStyles ys)"
  "offStyles [\<lparr>message = msg, severity = sev, path = Some [Key k]\<rparr>]"
  "offStyles [\<lparr>message = msg, severity = sev, path = Some (Key ''support_languages'' # rest)\<rparr>]"
  by (auto simp: offStyles_def atStyle_def)

lemma propOf_JObject [simp]: "propOf (Some (JObject props)) key = Inr (map_of props key)"
  by (simp add: propOf_def)

lemma requireString_added:
  "\<exists>added. requireString (Some (JObject props)) key errs = Inr (errs @ added) \<and> offStyles added"
  by (simp add: requireString_def push_def)

lemma validateVersion_added: "\<exists>added. validateVersion v errs = errs @ added \<and> offStyles added"
  by (simp add: validateVersion_def push_def split: option.split prod.split)

lemma validateLanguage_added:
  "\<exists>added. validateLanguage v errs [Key ''language''] = Inr (errs @ added) \<and> offStyles added"
proof (cases "isString v")
  case True
  then obtain s where "toLowerCaseOf v = Inr s" using toLowerCaseOf_string by blast
  with True show ?thesis by (simp add: validateLanguage_def push_def)
next
  case False
  then show ?thesis by (simp add: validateLanguage_def push_def)
qed

lemma validateSupportLanguage_added:
  "\<exists>added. validateSupportLanguage [Key ''support_languages''] entry index errs
       = Inr (errs @ added) \<and> offStyles added"
proof (cases "isString (Some entry)")
  case True
  then obtain s where "toLowerCaseOf (Some entry) = Inr s" using toLowerCaseOf_string by blast
  with True show ?thesis by (simp add: validateSupportLanguage_def push_def)
next
  case False
  then show ?thesis by (simp add: validateSupportLanguage_def push_def)
qed

lemma forEach_validateSupportLanguage_added:
  "\<exists>added. forEach (validateSupportLanguage [Key ''support_languages'']) entries index errs
       = Inr (errs @ added) \<and> offStyles added"
proof (induction entries arbitrary: index errs)
  case Nil
  show ?case by simp
next
  case (Cons entry entries)
  obtain a1 where a1: "validateSupportLanguage [Key ''support_languages''] entry index errs
       = Inr (errs @ a1)" "offStyles a1"
    using validateSupportLanguage_added by blast
  obtain a2 where a2: "forEach (validateSupportLanguage [Key ''support_languages'']) entries
       (Suc index) (errs @ a1) = Inr ((errs @ a1) @ a2)" "offStyles a2"
    using Cons.IH by blast
  have "forEach (validateSupportLanguage [Key ''support_languages'']) (entry # entries) index errs
       = Inr (errs @ (a1 @ a2)) \<and> offStyles (a1 @ a2)"
    using a1 a2 by simp
  then show ?case by (rule exI)
qed

lemma validateSupportLanguages_added:
  "\<exists>added. validateSupportLanguages v errs [Key ''support_languages''] = Inr (errs @ added)
     \<and> offStyles added"
proof (cases "isArrayValue v")
  case True
  then obtain xs where xs: "elementsOf v = Inr xs" using elementsOf_array by blast
  with True forEach_validateSupportLanguage_added [of xs 0 errs] show ?thesis
    by (simp add: validateSupportLanguages_def)
next
  case False
  then show ?thesis by (simp add: validateSupportLanguages_def push_def)
qed

lemma validatePhoneset_added:
  "\<exists>added. validatePhoneset language phoneset errs = Inr (errs @ added) \<and> offStyles added"
proof (cases "isString language")
  case False
  then show ?thesis by (simp add: validatePhoneset_def)
next
  case True
  then obtain l where l: "toLowerCaseOf language = Inr l" using toLowerCaseOf_string by blast
  show ?thesis
  proof (cases "isString phoneset")
    case False
    with True l show ?thesis by (simp add: validatePhoneset_def push_def split: option.split)
  next
    case p: True
    then obtain s where "toLowerCaseOf phoneset = Inr s" using toLowerCaseOf_string by blast
    with True l p show ?thesis by (simp add: validatePhoneset_def push_def split: option.split)
  qed
qed

lemma validateModelId_added:
  "\<exists>added. validateModelId v allowed key errs = errs @ added \<and> offStyles added"
  by (simp add: validateModelId_def push_def)

lemma validateRequiredHex_added:
  "\<exists>added. validateRequiredHex v key len errs = errs @ added \<and> offStyles added"
  by (simp add: validateRequiredHex_def push_def validateHex_snd hexIssues_def)

lemma validateStyles_array:
  "\<exists>warns1. validateStyles (Some (JArray entries)) errs warns
     = Inr (errs @ stylesIssues entries 0 [], warns1)"
proof -
  obtain warns1 seen1 where "forEach validateStyle entries 0 (errs, warns, [])
       = Inr (errs @ stylesIssues entries 0 [], warns1, seen1)"
    using forEach_validateStyle by blast
  then show ?thesis
    by (simp add: validateStyles_def isArrayValue_def elementsOf_def)
qed

lemma validateNofsData_errors:
  assumes "map_of props ''styles'' = Some (JArray entries)"
  shows "\<exists>r before after. validateNofsData (JObject props) = Inr r
     \<and> errors r = before @ stylesIssues entries 0 [] @ after
     \<and> offStyles before \<and> offStyles after"
proof -
  obtain a1 where a1: "requireString (Some (JObject props)) ''name'' [] = Inr ([] @ a1)"
    "offStyles a1" using requireString_added by blast
  obtain a2 where a2: "requireString (Some (JObject props)) ''vendor'' a1 = Inr (a1 @ a2)"
    "offStyles a2" using requireString_added by blast
  obtain a3 where a3: "requireString (Some (JObject props)) ''phoneset'' (a1 @ a2)
      = Inr ((a1 @ a2) @ a3)" "offStyles a3" using requireString_added by blast
  define e3 where "e3 = a1 @ a2 @ a3"
  obtain a4 where a4: "validateVersion (map_of props ''version'') e3 = e3 @ a4" "offStyles a4"
    using validateVersion_added by blast
  obtain a5 where a5: "validateLanguage (map_of props ''language'') (e3 @ a4) [Key ''language'']
      = Inr ((e3 @ a4) @ a5)" "offStyles a5" using validateLanguage_added by blast
  define e5 where "e5 = e3 @ a4 @ a5"
  obtain a6 where a6: "validateSupportLanguages (map_of props ''support_languages'') e5
      [Key ''support_languages''] = Inr (e5 @ a6)" "offStyles a6"
    using validateSupportLanguages_added by blast
  obtain a7 where a7: "validatePhoneset (map_of props ''language'') (map_of props ''phoneset'')
      (e5 @ a6) = Inr ((e5 @ a6) @ a7)" "offStyles a7" using validatePhoneset_added by blast
  define e7 where "e7 = e5 @ a6 @ a7"
  obtain a8 where a8: "validateModelId (map_of props ''sing_model'') ALLOWED_SING_MODEL
      ''sing_model'' e7 = e7 @ a8" "offStyles a8" using validateModelId_added by blast
  obtain a9 where a9: "validateModelId (map_of props ''base_model'') ALLOWED_BASE_MODEL
      ''base_model'' (e7 @ a8) = (e7 @ a8) @ a9" "offStyles a9"
    using validateModelId_added by blast
  obtain a10 where a10: "validateModelId (map_of props ''timing_model'') ALLOWED_TIMING_MODEL
      ''timing_model'' ((e7 @ a8) @ a9) = ((e7 @ a8) @ a9) @ a10" "offStyles a10"
    using validateModelId_added by blast
  obtain a11 where a11: "validateModelId (map_of props ''f0_model'') ALLOWED_F0_MODEL
      ''f0_model'' (((e7 @ a8) @ a9) @ a10) = (((e7 @ a8) @ a9) @ a10) @ a11" "offStyles a11"
    using validateModelId_added by blast
  define e11 where "e11 = e7 @ a8 @ a9 @ a10 @ a11"
  define ws where "ws = fold (\<lambda>key w.
              if key \<notin> set TOP_LEVEL_KEYS
              then push w \<lparr>message = ''Unknown key '' @ dq @ key @ dq @ ''.'',
                     severity = SeverityWarning, path = Some [Key key]\<rparr>
              else w) (map fst props) []"
  obtain warns1 where st: "validateStyles (Some (JArray entries)) e11 ws
      = Inr (e11 @ stylesIssues entries 0 [], warns1)"
    using validateStyles_array by blast
  define e12 where "e12 = e11 @ stylesIssues entries 0 []"
  obtain a13 where a13: "validateRequiredHex (map_of props ''pitch'') ''pitch'' 256 e12
      = e12 @ a13" "offStyles a13" using validateRequiredHex_added by blast
  obtain a14 where a14: "validateRequiredHex (map_of props ''timing'') ''timing'' 1024
      (e12 @ a13) = (e12 @ a13) @ a14" "offStyles a14" using validateRequiredHex_added by blast
  have "validateNofsData (JObject props)
          = Inr \<lparr>errors = e11 @ stylesIssues entries 0 [] @ (a13 @ a14), warnings = warns1\<rparr>"
    using a1 a2 a3 a4 a5 a6 a7 a8 a9 a10 a11 st a13 a14 assms
    by (simp add: validateNofsData_def isObject_def objectKeysOf_def Let_def
          e3_def e5_def e7_def e11_def e12_def ws_def)
  moreover have "offStyles e11" "offStyles (a13 @ a14)"
    using a1 a2 a3 a4 a5 a6 a7 a8 a9 a10 a11 a13 a14
    by (simp_all add: e3_def e5_def e7_def e11_def)
  ultimately show ?thesis
    by (intro exI [of _ "\<lparr>errors = e11 @ stylesIssues entries 0 [] @ (a13 @ a14),
          warnings = warns1\<rparr>"] exI [of _ e11] exI [of _ "a13 @ a14"]) simp
qed


text \<open>The valid configuration of the tests, with the given styles.\<close>

definition configWithStyles :: "32 word json list \<Rightarrow> 32 word json" where
  "configWithStyles styles =
     JObject [(''name'', JString ''Test VB''), (''version'', JString ''200a0''),
       (''vendor'', JString ''Test Vendor''), (''language'', JString ''english''),
       (''phoneset'', JString ''arpabet''),
       (''support_languages'', JArray [JString ''english'', JString ''spanish'']),
       (''base_model'', JString ''0cc8e47f4cbc55274c8af9ddd3b99952''),
       (''sing_model'', JString ''1a83aa71cb09e94bb8171a4f34d22cac''),
       (''timing_model'', JString ''1537c807a892bb00136c22a8edce6b64''),
       (''f0_model'', JString ''074caf0d79b926635bb8c1c36d2c0a36''),
       (''styles'', JArray styles),
       (''pitch'', JString (replicate 256 (CHR ''C''))),
       (''timing'', JString (replicate 1024 (CHR ''D'')))]"

definition styleEntry :: "string \<Rightarrow> char \<Rightarrow> 32 word json" where
  "styleEntry name c = JObject [(''name'', JString name), (''data'', JString (replicate 256 c))]"

lemma hexRE_replicate: "isHexChar c \<Longrightarrow> hexRE n (replicate n c)"
  by (simp add: hexRE_def list_all_iff)

lemma isHexChar_samples: "isHexChar CHR ''A''" "isHexChar CHR ''B''" "isHexChar CHR ''C''"
  "isHexChar CHR ''D''"
  by (simp_all add: isHexChar_def)

lemmas validator_defs =
  validateNofsData_def configWithStyles_def styleEntry_def isObject_def
  objectKeysOf_def Let_def TOP_LEVEL_KEYS_def requireString_def isString_def
  validateVersion_def stringValue_def versionMatch_def isDigit_def parsesToInteger_def
  decimalValue_def validateLanguage_def toLowerCaseOf_def toLowerCase_def toLowerChar_def
  ALLOWED_LANGUAGES_def validateSupportLanguages_def isArrayValue_def elementsOf_def
  validateSupportLanguage_def validatePhoneset_def PHONESET_BY_LANGUAGE_def
  validateModelId_def ALLOWED_SING_MODEL_def ALLOWED_BASE_MODEL_def
  ALLOWED_TIMING_MODEL_def ALLOWED_F0_MODEL_def validateStyles_def validateStyle_def
  STYLE_KEYS_def includesOf_def includesString_single validateHex_def
  validateRequiredHex_def hexRE_replicate isHexChar_samples push_def

text \<open>
  Claim C9. \<^verbatim>\<open>validateNofsData\<close> returns a result for every JSON value: no property
  read, \<^verbatim>\<open>Object.keys\<close> or method call in it or in the rules it calls raises a
  \<^verbatim>\<open>TypeError\<close>, whatever the types of the fields are.
\<close>

theorem validateNofsData_total: "\<exists>r. validateNofsData data = Inr r"
  by (rule validateNofsData_total_aux)

theorem validateNofsData_total_witness:
  "validateNofsData (configWithStyles [styleEntry ''Soft'' CHR ''A'', styleEntry ''Power'' CHR ''B''])
     = Inr \<lparr>errors = [], warnings = []\<rparr>
   \<and> validateNofsData (JNull :: 32 word json)
     = Inr \<lparr>errors = [\<lparr>message = ''Root value must be an object.'', severity = SeverityError,
                         path = None\<rparr>], warnings = []\<rparr>
   \<and> validateNofsData (JObject [(''name'', JNumber (0 :: 32 word)), (''styles'', JNull)])
     \<noteq> Inl (TypeError ''Cannot read properties of null'')"
proof -
  have "validateNofsData (configWithStyles [styleEntry ''Soft'' CHR ''A'',
          styleEntry ''Power'' CHR ''B'']) = Inr \<lparr>errors = [], warnings = []\<rparr>"
    by (simp add: validator_defs)
  moreover have "validateNofsData (JNull :: 32 word json)
     = Inr \<lparr>errors = [\<lparr>message = ''Root value must be an object.'', severity = SeverityError,
                         path = None\<rparr>], warnings = []\<rparr>"
    by (simp add: validateNofsData_def isObject_def push_def)
  moreover have "validateNofsData (JObject [(''name'', JNumber (0 :: 32 word)), (''styles'', JNull)])
     \<noteq> Inl (TypeError ''Cannot read properties of null'')"
    using validateNofsData_total [of "JObject [(''name'', JNumber (0 :: 32 word)), (''styles'', JNull)]"]
    by auto
  ultimately show ?thesis by simp
qed

text \<open>
  Claim C8 (as amended). For a document whose \<^verbatim>\<open>styles\<close> is an array, and every entry
  of it that is an object with a string as its name: the validator reports "style.name
  cannot contain spaces." at that entry exactly when the name contains the space
  character, and "Duplicate style name" at that entry exactly when an earlier entry has
  the same name, so at the second and later occurrences of a name and never at the first.
\<close>

theorem validateNofsData_style_names:
  assumes "map_of props ''styles'' = Some (JArray entries)"
  shows "\<exists>r. validateNofsData (JObject props) = Inr r
     \<and> (\<forall>i<length entries. \<forall>n. styleName (entries ! i) = Some n \<longrightarrow>
           (spacesIssue i \<in> set (errors r) \<longleftrightarrow> CHR '' '' \<in> set n)
         \<and> (duplicateIssue i n \<in> set (errors r)
              \<longleftrightarrow> (\<exists>j<i. styleName (entries ! j) = Some n)))"
proof -
  from validateNofsData_errors [OF assms] obtain r before after where
    r: "validateNofsData (JObject props) = Inr r"
    and e: "errors r = before @ stylesIssues entries 0 [] @ after"
    and off: "offStyles before" "offStyles after"
    by blast
  have only: "(x \<in> set (errors r)) = (x \<in> set (stylesIssues entries 0 []))"
    if "atStyle i x" for x i
    using off that by (auto simp: e offStyles_def)
  have "(spacesIssue i \<in> set (errors r) \<longleftrightarrow> CHR '' '' \<in> set n)
         \<and> (duplicateIssue i n \<in> set (errors r)
              \<longleftrightarrow> (\<exists>j<i. styleName (entries ! j) = Some n))"
    if "i < length entries" "styleName (entries ! i) = Some n" for i n
    using stylesIssues_names [OF that, of 0 "[]"]
      only [of i "spacesIssue i"] only [of i "duplicateIssue i n"]
    by simp
  with r show ?thesis by blast
qed

text \<open>
  Claim C8 as stated fails: a style name with a tab in it, which is whitespace, raises no
  error.
\<close>

theorem validateNofsData_tab_in_style_name:
  "validateNofsData (configWithStyles [styleEntry ''Soft'' CHR ''A'',
     styleEntry [CHR ''a'', CHR 0x09, CHR ''b''] CHR ''B''])
   = Inr \<lparr>errors = [], warnings = []\<rparr>"
  by (simp add: validator_defs)

lemma styleName_styleEntry [simp]: "styleName (styleEntry n c) = Some n"
  by (simp add: styleName_def styleEntry_def)

theorem validateNofsData_style_names_witness:
  "\<exists>r. validateNofsData (configWithStyles [styleEntry ''Soft'' CHR ''A'',
            styleEntry ''So ft'' CHR ''B'', styleEntry ''Soft'' CHR ''A'']) = Inr r
     \<and> spacesIssue 1 \<in> set (errors r) \<and> spacesIssue 0 \<notin> set (errors r)
     \<and> duplicateIssue 2 ''Soft'' \<in> set (errors r)
     \<and> duplicateIssue 0 ''Soft'' \<notin> set (errors r)"
proof -
  let ?entries = "[styleEntry ''Soft'' CHR ''A'', styleEntry ''So ft'' CHR ''B'',
      styleEntry ''Soft'' CHR ''A'']"
  have "\<exists>r. validateNofsData (configWithStyles ?entries) = Inr r
     \<and> (\<forall>i<length ?entries. \<forall>n. styleName (?entries ! i) = Some n \<longrightarrow>
           (spacesIssue i \<in> set (errors r) \<longleftrightarrow> CHR '' '' \<in> set n)
         \<and> (duplicateIssue i n \<in> set (errors r)
              \<longleftrightarrow> (\<exists>j<i. styleName (?entries ! j) = Some n)))"
    unfolding configWithStyles_def
    by (rule validateNofsData_style_names) simp
  then obtain r where r: "validateNofsData (configWithStyles ?entries) = Inr r"
    and p: "\<And>i n. i < length ?entries \<Longrightarrow> styleName (?entries ! i) = Some n \<Longrightarrow>
           (spacesIssue i \<in> set (errors r) \<longleftrightarrow> CHR '' '' \<in> set n)
         \<and> (duplicateIssue i n \<in> set (errors r)
              \<longleftrightarrow> (\<exists>j<i. styleName (?entries ! j) = Some n))"
    by blast
  have "spacesIssue 1 \<in> set (errors r)"
    using p [of 1 "''So ft''"] by simp
  moreover have "spacesIssue 0 \<notin> set (errors r)"
    using p [of 0 "''Soft''"] by simp
  moreover have "duplicateIssue 2 ''Soft'' \<in> set (errors r)"
  proof -
    have "\<exists>j<2. styleName (?entries ! j) = Some ''Soft''"
      by (intro exI [of _ 0]) simp
    then show ?thesis using p [of 2 "''Soft''"] by simp
  qed
  moreover have "duplicateIssue 0 ''Soft'' \<notin> set (errors r)"
    using p [of 0 "''Soft''"] by simp
  ultimately show ?thesis using r by blast
qed

end
